theory Spec2Isabelle
  imports
    Complex_Main
    "HOL-Library.Word"
    "HOL-Library.Multiset"
    "HOL-Library.Sublist"
    "HOL-Library.AList"
begin

section \<open>The exporter of main.go, embedded\<close>

text \<open>
  The development follows \<^verbatim>\<open>src/main.go\<close>. One scrape is a run of \<^verbatim>\<open>Exporter.Collect\<close>:
  it sends requests to the backup server and writes metric samples to the channel
  \<^verbatim>\<open>ch\<close>. Both effects are kept in an explicit state (\<open>World\<close>): the requests sent so far,
  in order, the samples written to the channel so far, in order, and the errors handed
  to \<^verbatim>\<open>log.Println\<close>. Every function returns the state it leaves behind, also when it
  returns an error, since the samples written before the error stay written.

  What the program takes from outside is a parameter (\<open>Env\<close>): the answers of the server
  to \<^verbatim>\<open>client.Do\<close>, the outcome of \<^verbatim>\<open>http.NewRequest\<close> on a URL, the four
  \<^verbatim>\<open>json.Unmarshal\<close> decoders, and the order in which \<^verbatim>\<open>range\<close> visits a Go map.
  The \<^verbatim>\<open>DEBUG\<close> log lines only print; they are left out.
\<close>

subsection \<open>Constants\<close>

definition promNamespace :: string where
  "promNamespace = ''pbs''"

definition datastoreUsageApi :: string where
  "datastoreUsageApi = ''/api2/json/status/datastore-usage''"

definition datastoreApi :: string where
  "datastoreApi = ''/api2/json/admin/datastore''"

definition nodeApi :: string where
  "nodeApi = ''/api2/json/nodes''"

subsection \<open>Metric descriptors\<close>

text \<open>
  \<^verbatim>\<open>prometheus.BuildFQName\<close> and \<^verbatim>\<open>prometheus.NewDesc\<close> belong to the client library.
  \<open>BuildFQName\<close> joins its non-empty parts with an underscore and yields the empty
  string for an empty name; a descriptor keeps the name, the help text and the names of
  its variable labels (\<^verbatim>\<open>nil\<close> is the empty list; the constant labels are \<^verbatim>\<open>nil\<close>
  everywhere).
\<close>

definition BuildFQName :: "string \<Rightarrow> string \<Rightarrow> string \<Rightarrow> string" where
  "BuildFQName namespace subsystem name =
     (if name = [] then []
      else if namespace \<noteq> [] \<and> subsystem \<noteq> [] then namespace @ ''_'' @ subsystem @ ''_'' @ name
      else if namespace \<noteq> [] then namespace @ ''_'' @ name
      else if subsystem \<noteq> [] then subsystem @ ''_'' @ name
      else name)"

record Desc =
  fqName :: string
  help_text :: string
  variableLabels :: "string list"

definition NewDesc :: "string \<Rightarrow> string \<Rightarrow> string list \<Rightarrow> Desc" where
  "NewDesc fq h labels = \<lparr>fqName = fq, help_text = h, variableLabels = labels\<rparr>"

definition up :: Desc where
  "up = NewDesc (BuildFQName promNamespace [] ''up'')
     ''Was the last query of PBS successful.'' []"

definition available :: Desc where
  "available = NewDesc (BuildFQName promNamespace [] ''available'')
     ''The available bytes of the underlying storage.'' []"

definition size_desc :: Desc where
  "size_desc = NewDesc (BuildFQName promNamespace [] ''size'')
     ''The size of the underlying storage in bytes.'' []"

definition used :: Desc where
  "used = NewDesc (BuildFQName promNamespace [] ''used'')
     ''The used bytes of the underlying storage.'' []"

definition snapshot_count :: Desc where
  "snapshot_count = NewDesc (BuildFQName promNamespace [] ''snapshot_count'')
     ''The total number of backups.'' [''namespace'']"

definition snapshot_vm_count :: Desc where
  "snapshot_vm_count = NewDesc (BuildFQName promNamespace [] ''snapshot_vm_count'')
     ''The total number of backups per VM.'' [''namespace'', ''vm_id'']"

definition host_cpu_usage :: Desc where
  "host_cpu_usage = NewDesc (BuildFQName promNamespace [] ''host_cpu_usage'')
     ''The CPU usage of the host.'' []"

definition host_memory_free :: Desc where
  "host_memory_free = NewDesc (BuildFQName promNamespace [] ''host_memory_free'')
     ''The free memory of the host.'' []"

definition host_memory_total :: Desc where
  "host_memory_total = NewDesc (BuildFQName promNamespace [] ''host_memory_total'')
     ''The total memory of the host.'' []"

definition host_memory_used :: Desc where
  "host_memory_used = NewDesc (BuildFQName promNamespace [] ''host_memory_used'')
     ''The used memory of the host.'' []"

definition host_swap_free :: Desc where
  "host_swap_free = NewDesc (BuildFQName promNamespace [] ''host_swap_free'')
     ''The free swap of the host.'' []"

definition host_swap_total :: Desc where
  "host_swap_total = NewDesc (BuildFQName promNamespace [] ''host_swap_total'')
     ''The total swap of the host.'' []"

definition host_swap_used :: Desc where
  "host_swap_used = NewDesc (BuildFQName promNamespace [] ''host_swap_used'')
     ''The used swap of the host.'' []"

definition host_disk_available :: Desc where
  "host_disk_available = NewDesc (BuildFQName promNamespace [] ''host_available_free'')
     ''The available disk of the local root disk in bytes.'' []"

definition host_disk_total :: Desc where
  "host_disk_total = NewDesc (BuildFQName promNamespace [] ''host_disk_total'')
     ''The total disk of the local root disk in bytes.'' []"

definition host_disk_used :: Desc where
  "host_disk_used = NewDesc (BuildFQName promNamespace [] ''host_disk_used'')
     ''The used disk of the local root disk in bytes.'' []"

definition host_uptime :: Desc where
  "host_uptime = NewDesc (BuildFQName promNamespace [] ''host_uptime'')
     ''The uptime of the host.'' []"

definition host_io_wait :: Desc where
  "host_io_wait = NewDesc (BuildFQName promNamespace [] ''host_io_wait'')
     ''The io wait of the host.'' []"

subsection \<open>Metric samples\<close>

text \<open>
  A sample value is a \<^verbatim>\<open>float64\<close>. The conversions \<^verbatim>\<open>float64(x)\<close> of the source are
  kept symbolic, so that nothing is said about rounding: \<open>Float64_of_int64\<close> converts an
  \<^verbatim>\<open>int64\<close> field (a 64-bit word, read as signed), \<open>Float64_of_int\<close> a Go \<^verbatim>\<open>int\<close> (a length or a counter, never
  negative and below \<open>2 ^ 63\<close>), and \<open>Float64\<close> holds a value that is a \<^verbatim>\<open>float64\<close>
  already (a decoded JSON number, or the literals \<open>0\<close> and \<open>1\<close>).
\<close>

datatype float64 = Float64_of_int64 "64 word" | Float64_of_int int | Float64 real

datatype ValueType = CounterValue | GaugeValue | UntypedValue

record Metric =
  desc :: Desc
  valType :: ValueType
  val :: float64
  labelValues :: "string list"

text \<open>
  \<^verbatim>\<open>prometheus.MustNewConstMetric\<close> panics when the number of label values differs
  from the number of variable labels of the descriptor. Every call of the source passes
  a fixed descriptor and a fixed number of label values; \<open>emitted_labels_match\<close> below
  shows that the numbers agree for every sample written, so the panic has no branch here.
\<close>

definition MustNewConstMetric :: "Desc \<Rightarrow> ValueType \<Rightarrow> float64 \<Rightarrow> string list \<Rightarrow> Metric" where
  "MustNewConstMetric d t v lvs = \<lparr>desc = d, valType = t, val = v, labelValues = lvs\<rparr>"

subsection \<open>Decoded responses\<close>

record Datastore =
  Avail :: "64 word"
  Store :: string
  Total :: "64 word"
  Used :: "64 word"
  Store_Namespace :: string

record NamespaceEntry =
  Namespace :: string

record SnapshotEntry =
  BackupID :: string

text \<open>The nested structs of \<^verbatim>\<open>HostResponse.Data\<close>, one field per path.\<close>

record HostData =
  CPU :: real
  Mem_Free :: "64 word"
  Mem_Total :: "64 word"
  Mem_Used :: "64 word"
  Swap_Free :: "64 word"
  Swap_Total :: "64 word"
  Swap_Used :: "64 word"
  Disk_Avail :: "64 word"
  Disk_Total :: "64 word"
  Disk_Used :: "64 word"
  Uptime :: "64 word"
  Wait :: real

subsection \<open>Requests, responses, errors\<close>

record Request =
  Method :: string
  URL :: string
  Header :: "(string \<times> string) list"

text \<open>\<open>Body\<close> is what \<^verbatim>\<open>io.ReadAll(resp.Body)\<close> gives: the bytes, or a read error.\<close>

record Response =
  StatusCode :: int
  Body :: "string + string"

text \<open>
  The errors a collector returns: from \<^verbatim>\<open>http.NewRequest\<close>, from \<^verbatim>\<open>client.Do\<close>, from
  \<^verbatim>\<open>io.ReadAll\<close>, the status error built by \<^verbatim>\<open>fmt.Errorf\<close> (the text before
  \<^verbatim>\<open>Status code\<close>, the code, the endpoint), and from \<^verbatim>\<open>json.Unmarshal\<close>.
\<close>

datatype error =
    NewRequestError string
  | DoError string
  | ReadAllError string
  | StatusError string int string
  | UnmarshalError string

record Env =
  NewRequest_error :: "string \<Rightarrow> string option"
  Do :: "Request list \<Rightarrow> Request \<Rightarrow> string + Response"
  Unmarshal_DatastoreResponse :: "string \<Rightarrow> string + Datastore list"
  Unmarshal_NamespaceResponse :: "string \<Rightarrow> string + NamespaceEntry list"
  Unmarshal_SnapshotResponse :: "string \<Rightarrow> string + SnapshotEntry list"
  Unmarshal_HostResponse :: "string \<Rightarrow> string + HostData"
  map_range :: "(string \<times> int) list \<Rightarrow> (string \<times> int) list"

record World =
  sent :: "Request list"
  ch :: "Metric list"
  logged :: "error list"

definition send :: "Metric \<Rightarrow> World \<Rightarrow> World" where
  "send m w = w\<lparr>ch := ch w @ [m]\<rparr>"

subsection \<open>The exporter\<close>

record Exporter =
  endpoint :: string
  authorizationHeader :: string

definition NewExporter :: "string \<Rightarrow> string \<Rightarrow> string \<Rightarrow> string \<Rightarrow> Exporter" where
  "NewExporter endpoint' username apitoken apitokenname =
     \<lparr>endpoint = endpoint',
      authorizationHeader = ''PBSAPIToken='' @ username @ ''!'' @ apitokenname @ '':'' @ apitoken\<rparr>"

subsection \<open>One API call\<close>

text \<open>
  The source writes the same block four times: build the request with
  \<^verbatim>\<open>http.NewRequest("GET", url, nil)\<close>, set the \<^verbatim>\<open>Authorization\<close> header, send it with
  \<^verbatim>\<open>client.Do\<close>, read the body, then check the status code. \<open>apiGet\<close> is that block; its
  arguments are the text that the status error of the call site puts before
  \<^verbatim>\<open>Status code\<close>, and the URL. The request is recorded in \<open>sent\<close> when \<^verbatim>\<open>client.Do\<close> is
  called, whatever it answers. The server's answer may depend on the requests it has
  received before.
\<close>

definition Header_Set :: "string \<Rightarrow> string \<Rightarrow> Request \<Rightarrow> Request" where
  "Header_Set k v req = req\<lparr>Header := AList.update k v (Header req)\<rparr>"

definition NewRequest :: "Env \<Rightarrow> string \<Rightarrow> string \<Rightarrow> error + Request" where
  "NewRequest env method url =
     (case NewRequest_error env url of
        Some msg \<Rightarrow> Inl (NewRequestError msg)
      | None \<Rightarrow> Inr \<lparr>Method = method, URL = url, Header = []\<rparr>)"

definition apiGet :: "Env \<Rightarrow> Exporter \<Rightarrow> string \<Rightarrow> string \<Rightarrow> World \<Rightarrow> (error + string) \<times> World" where
  "apiGet env e pfx url w =
     (case NewRequest env ''GET'' url of
        Inl err \<Rightarrow> (Inl err, w)
      | Inr req0 \<Rightarrow>
          (let req = Header_Set ''Authorization'' (authorizationHeader e) req0;
               w' = w\<lparr>sent := sent w @ [req]\<rparr>
           in case Do env (sent w) req of
                Inl msg \<Rightarrow> (Inl (DoError msg), w')
              | Inr resp \<Rightarrow>
                  (case Body resp of
                     Inl msg \<Rightarrow> (Inl (ReadAllError msg), w')
                   | Inr body \<Rightarrow>
                       if StatusCode resp \<noteq> 200
                       then (Inl (StatusError pfx (StatusCode resp) (endpoint e)), w')
                       else (Inr body, w'))))"

subsection \<open>The namespace collector\<close>

text \<open>
  \<^verbatim>\<open>vmCount\<close> is a Go map from backup id to counter. It is an association list with
  distinct keys here; \<^verbatim>\<open>vmCount[vmName]++\<close> reads the counter (\<open>0\<close> when the key is
  absent) and stores it incremented. \<^verbatim>\<open>range vmCount\<close> visits the entries in an order
  the language leaves open: the entries are handed to \<open>map_range env\<close>, which stands for
  any rearrangement of them.
\<close>

definition vmCount_incr :: "string \<Rightarrow> (string \<times> int) list \<Rightarrow> (string \<times> int) list" where
  "vmCount_incr vmName vmCount =
     AList.update vmName ((case map_of vmCount vmName of None \<Rightarrow> 0 | Some c \<Rightarrow> c) + 1) vmCount"

definition count_snapshots :: "SnapshotEntry list \<Rightarrow> (string \<times> int) list" where
  "count_snapshots data = fold (\<lambda>snapshot vmCount. vmCount_incr (BackupID snapshot) vmCount) data []"

definition snapshot_vm_metric :: "string \<Rightarrow> string \<times> int \<Rightarrow> Metric" where
  "snapshot_vm_metric namespace kv =
     MustNewConstMetric snapshot_vm_count GaugeValue (Float64_of_int (snd kv)) [namespace, fst kv]"

definition getNamespaceMetric :: "Env \<Rightarrow> Exporter \<Rightarrow> string \<Rightarrow> string \<Rightarrow> World \<Rightarrow> error option \<times> World" where
  "getNamespaceMetric env e datastore namespace w =
     (case apiGet env e ''ERROR: ----''
             (endpoint e @ datastoreApi @ ''/'' @ datastore @ ''/snapshots?ns='' @ namespace) w of
        (Inl err, w1) \<Rightarrow> (Some err, w1)
      | (Inr body, w1) \<Rightarrow>
          (case Unmarshal_SnapshotResponse env body of
             Inl msg \<Rightarrow> (Some (UnmarshalError msg), w1)
           | Inr data \<Rightarrow>
               (let w2 = send (MustNewConstMetric snapshot_count GaugeValue
                                 (Float64_of_int (int (length data))) [namespace]) w1;
                    vmCount = count_snapshots data
                in (None, fold (\<lambda>kv. send (snapshot_vm_metric namespace kv)) (map_range env vmCount) w2))))"

subsection \<open>The datastore collector\<close>

fun namespaces_loop :: "Env \<Rightarrow> Exporter \<Rightarrow> string \<Rightarrow> NamespaceEntry list \<Rightarrow> World \<Rightarrow> error option \<times> World" where
  "namespaces_loop env e store [] w = (None, w)"
| "namespaces_loop env e store (namespace # rest) w =
     (if Namespace namespace = [] then namespaces_loop env e store rest w
      else case getNamespaceMetric env e store (Namespace namespace) w of
             (Some err, w') \<Rightarrow> (Some err, w')
           | (None, w') \<Rightarrow> namespaces_loop env e store rest w')"

definition getDatastoreMetric :: "Env \<Rightarrow> Exporter \<Rightarrow> Datastore \<Rightarrow> World \<Rightarrow> error option \<times> World" where
  "getDatastoreMetric env e datastore w =
     (let w0 = fold send
                 [MustNewConstMetric available GaugeValue (Float64_of_int64 (Avail datastore)) [],
                  MustNewConstMetric size_desc GaugeValue (Float64_of_int64 (Total datastore)) [],
                  MustNewConstMetric used GaugeValue (Float64_of_int64 (Used datastore)) []] w
      in case apiGet env e ''ERROR: --''
                (endpoint e @ datastoreApi @ ''/'' @ Store datastore @ ''/namespace'') w0 of
           (Inl err, w1) \<Rightarrow> (Some err, w1)
         | (Inr body, w1) \<Rightarrow>
             (case Unmarshal_NamespaceResponse env body of
                Inl msg \<Rightarrow> (Some (UnmarshalError msg), w1)
              | Inr data \<Rightarrow> namespaces_loop env e (Store datastore) data w1))"

subsection \<open>The host collector\<close>

definition host_metrics :: "HostData \<Rightarrow> Metric list" where
  "host_metrics d =
     [MustNewConstMetric host_cpu_usage GaugeValue (Float64 (CPU d)) [],
      MustNewConstMetric host_memory_free GaugeValue (Float64_of_int64 (Mem_Free d)) [],
      MustNewConstMetric host_memory_total GaugeValue (Float64_of_int64 (Mem_Total d)) [],
      MustNewConstMetric host_memory_used GaugeValue (Float64_of_int64 (Mem_Used d)) [],
      MustNewConstMetric host_swap_free GaugeValue (Float64_of_int64 (Swap_Free d)) [],
      MustNewConstMetric host_swap_total GaugeValue (Float64_of_int64 (Swap_Total d)) [],
      MustNewConstMetric host_swap_used GaugeValue (Float64_of_int64 (Swap_Used d)) [],
      MustNewConstMetric host_disk_available GaugeValue (Float64_of_int64 (Disk_Avail d)) [],
      MustNewConstMetric host_disk_total GaugeValue (Float64_of_int64 (Disk_Total d)) [],
      MustNewConstMetric host_disk_used GaugeValue (Float64_of_int64 (Disk_Used d)) [],
      MustNewConstMetric host_uptime GaugeValue (Float64_of_int64 (Uptime d)) [],
      MustNewConstMetric host_io_wait GaugeValue (Float64 (Wait d)) []]"

definition getNodeMetrics :: "Env \<Rightarrow> Exporter \<Rightarrow> World \<Rightarrow> error option \<times> World" where
  "getNodeMetrics env e w =
     (case apiGet env e ''ERROR: '' (endpoint e @ nodeApi @ ''/localhost/status'') w of
        (Inl err, w1) \<Rightarrow> (Some err, w1)
      | (Inr body, w1) \<Rightarrow>
          (case Unmarshal_HostResponse env body of
             Inl msg \<Rightarrow> (Some (UnmarshalError msg), w1)
           | Inr d \<Rightarrow> (None, fold send (host_metrics d) w1)))"

subsection \<open>The orchestrator\<close>

fun datastores_loop :: "Env \<Rightarrow> Exporter \<Rightarrow> Datastore list \<Rightarrow> World \<Rightarrow> error option \<times> World" where
  "datastores_loop env e [] w = (None, w)"
| "datastores_loop env e (datastore # rest) w =
     (case getDatastoreMetric env e datastore w of
        (Some err, w') \<Rightarrow> (Some err, w')
      | (None, w') \<Rightarrow> datastores_loop env e rest w')"

definition collectFromAPI :: "Env \<Rightarrow> Exporter \<Rightarrow> World \<Rightarrow> error option \<times> World" where
  "collectFromAPI env e w =
     (case apiGet env e ''ERROR: '' (endpoint e @ datastoreUsageApi) w of
        (Inl err, w1) \<Rightarrow> (Some err, w1)
      | (Inr body, w1) \<Rightarrow>
          (case Unmarshal_DatastoreResponse env body of
             Inl msg \<Rightarrow> (Some (UnmarshalError msg), w1)
           | Inr data \<Rightarrow>
               (case datastores_loop env e data w1 of
                  (Some err, w2) \<Rightarrow> (Some err, w2)
                | (None, w2) \<Rightarrow> getNodeMetrics env e w2)))"

definition Collect :: "Env \<Rightarrow> Exporter \<Rightarrow> World \<Rightarrow> World" where
  "Collect env e w =
     (case collectFromAPI env e w of
        (Some err, w') \<Rightarrow>
          (send (MustNewConstMetric up GaugeValue (Float64 0) []) w')\<lparr>logged := logged w' @ [err]\<rparr>
      | (None, w') \<Rightarrow> send (MustNewConstMetric up GaugeValue (Float64 1) []) w')"

text \<open>A scrape starts with no request sent and an empty channel.\<close>

definition idle :: World where
  "idle = \<lparr>sent = [], ch = [], logged = []\<rparr>"

definition scrape :: "Env \<Rightarrow> Exporter \<Rightarrow> World" where
  "scrape env e = Collect env e idle"

subsection \<open>Start-up: flags and environment\<close>

text \<open>
  The nine flags after \<^verbatim>\<open>flag.Parse()\<close>: each holds the value given on the command line,
  or its default. The process environment is a partial map; \<^verbatim>\<open>os.Getenv\<close> gives the
  empty string for a variable that is not set. \<open>env_override\<close> is the sequence of
  assignments at the head of \<^verbatim>\<open>main\<close>. \<^verbatim>\<open>time.ParseDuration\<close> is a parameter;
  \<^verbatim>\<open>log.Fatalf\<close> ends the process, which is the \<open>Inl\<close> result here.
\<close>

record Flags =
  endpoint_flag :: string
  username :: string
  apitoken :: string
  apitokenname :: string
  timeout :: string
  insecure :: string
  metricsPath :: string
  listenAddress :: string
  loglevel :: string

definition Getenv :: "(string \<rightharpoonup> string) \<Rightarrow> string \<Rightarrow> string" where
  "Getenv environ key = (case environ key of None \<Rightarrow> [] | Some v \<Rightarrow> v)"

definition env_override :: "(string \<rightharpoonup> string) \<Rightarrow> Flags \<Rightarrow> Flags" where
  "env_override environ f0 =
     (let f1 = (if Getenv environ ''PBS_LOGLEVEL'' \<noteq> [] then f0\<lparr>loglevel := Getenv environ ''PBS_LOGLEVEL''\<rparr> else f0);
          f2 = (if Getenv environ ''PBS_ENDPOINT'' \<noteq> [] then f1\<lparr>endpoint_flag := Getenv environ ''PBS_ENDPOINT''\<rparr> else f1);
          f3 = (if Getenv environ ''PBS_USERNAME'' \<noteq> [] then f2\<lparr>username := Getenv environ ''PBS_USERNAME''\<rparr> else f2);
          f4 = (if Getenv environ ''PBS_API_TOKEN_NAME'' \<noteq> [] then f3\<lparr>apitokenname := Getenv environ ''PBS_API_TOKEN_NAME''\<rparr> else f3);
          f5 = (if Getenv environ ''PBS_API_TOKEN'' \<noteq> [] then f4\<lparr>apitoken := Getenv environ ''PBS_API_TOKEN''\<rparr> else f4);
          f6 = (if Getenv environ ''PBS_TIMEOUT'' \<noteq> [] then f5\<lparr>timeout := Getenv environ ''PBS_TIMEOUT''\<rparr> else f5);
          f7 = (if Getenv environ ''PBS_INSECURE'' \<noteq> [] then f6\<lparr>insecure := Getenv environ ''PBS_INSECURE''\<rparr> else f6);
          f8 = (if Getenv environ ''PBS_METRICS_PATH'' \<noteq> [] then f7\<lparr>metricsPath := Getenv environ ''PBS_METRICS_PATH''\<rparr> else f7)
      in if Getenv environ ''PBS_LISTEN_ADDRESS'' \<noteq> [] then f8\<lparr>listenAddress := Getenv environ ''PBS_LISTEN_ADDRESS''\<rparr> else f8)"

text \<open>
  \<^verbatim>\<open>strconv.ParseBool\<close>, from the standard library. The text of its error is given
  without the quotation marks that the library puts around the input.
\<close>

definition ParseBool :: "string \<Rightarrow> string + bool" where
  "ParseBool str =
     (if str \<in> set [''1'', ''t'', ''T'', ''true'', ''TRUE'', ''True''] then Inr True
      else if str \<in> set [''0'', ''f'', ''F'', ''false'', ''FALSE'', ''False''] then Inr False
      else Inl (''strconv.ParseBool: parsing '' @ str @ '': invalid syntax''))"

text \<open>
  What \<^verbatim>\<open>main\<close> has set up when it starts the HTTP server: the registered exporter, the
  two settings of the shared HTTP client, and where the metrics are served.
\<close>

record Startup =
  exporter :: Exporter
  InsecureSkipVerify :: bool
  Timeout :: int
  metrics_route :: string
  listen_on :: string
  effective :: Flags

definition main :: "(string \<rightharpoonup> string) \<Rightarrow> (string \<Rightarrow> string + int) \<Rightarrow> Flags \<Rightarrow> string + Startup" where
  "main environ ParseDuration f0 =
     (let f = env_override environ f0
      in case ParseBool (insecure f) of
           Inl err \<Rightarrow> Inl (''ERROR: Unable to parse insecure: '' @ err)
         | Inr insecureBool \<Rightarrow>
             (case ParseDuration (timeout f) of
                Inl err \<Rightarrow> Inl (''ERROR: Unable to parse timeout: '' @ err)
              | Inr timeoutDuration \<Rightarrow>
                  Inr \<lparr>exporter = NewExporter (endpoint_flag f) (username f) (apitoken f) (apitokenname f),
                       InsecureSkipVerify = (if insecureBool then True else False),
                       Timeout = timeoutDuration,
                       metrics_route = metricsPath f,
                       listen_on = listenAddress f,
                       effective = f\<rparr>))"

section \<open>Notions used in the statements\<close>

text \<open>The request of an API call to \<open>url\<close>, as \<open>apiGet\<close> builds it.\<close>

definition api_request :: "Exporter \<Rightarrow> string \<Rightarrow> Request" where
  "api_request e url = \<lparr>Method = ''GET'', URL = url, Header = [(''Authorization'', authorizationHeader e)]\<rparr>"

definition usage_url :: "Exporter \<Rightarrow> string" where
  "usage_url e = endpoint e @ datastoreUsageApi"

definition namespace_url :: "Exporter \<Rightarrow> string \<Rightarrow> string" where
  "namespace_url e store = endpoint e @ datastoreApi @ ''/'' @ store @ ''/namespace''"

definition snapshots_url :: "Exporter \<Rightarrow> string \<Rightarrow> string \<Rightarrow> string" where
  "snapshots_url e store namespace = endpoint e @ datastoreApi @ ''/'' @ store @ ''/snapshots?ns='' @ namespace"

definition node_url :: "Exporter \<Rightarrow> string" where
  "node_url e = endpoint e @ nodeApi @ ''/localhost/status''"

text \<open>
  The server answers the call to \<open>url\<close>, made in state \<open>w\<close>, with the response \<open>resp\<close>:
  the URL is accepted by \<^verbatim>\<open>http.NewRequest\<close> and \<^verbatim>\<open>client.Do\<close> returns \<open>resp\<close>.
\<close>

definition answers :: "Env \<Rightarrow> Exporter \<Rightarrow> World \<Rightarrow> string \<Rightarrow> Response \<Rightarrow> bool" where
  "answers env e w url resp \<longleftrightarrow>
     NewRequest_error env url = None \<and> Do env (sent w) (api_request e url) = Inr resp"

text \<open>The error of a call whose response has a status code other than 200.\<close>

definition non200_error :: "Exporter \<Rightarrow> string \<Rightarrow> Response \<Rightarrow> error" where
  "non200_error e pfx resp =
     (case Body resp of
        Inl msg \<Rightarrow> ReadAllError msg
      | Inr body \<Rightarrow> StatusError pfx (StatusCode resp) (endpoint e))"

text \<open>
  Running a collector on each element of a list, in order, until one returns an error:
  the reading of ``for each \<dots> invokes the collector'' under the rule that an error
  ends the scrape.
\<close>

fun for_each_until_error :: "('a \<Rightarrow> World \<Rightarrow> error option \<times> World) \<Rightarrow> 'a list \<Rightarrow> World \<Rightarrow> error option \<times> World" where
  "for_each_until_error f [] w = (None, w)"
| "for_each_until_error f (x # xs) w =
     (case f x w of
        (Some err, w') \<Rightarrow> (Some err, w')
      | (None, w') \<Rightarrow> for_each_until_error f xs w')"

text \<open>
  The calls of a scrape that runs to its end, in order, for the datastores \<open>dss\<close> of the
  usage listing and the namespace names \<open>nss\<close> listed for each of them: the usage
  listing; for each datastore its namespace listing, then the snapshot listing of each of
  its non-empty namespaces; the node status last.
\<close>

definition datastore_calls :: "Exporter \<Rightarrow> Datastore \<times> string list \<Rightarrow> Request list" where
  "datastore_calls e dn =
     api_request e (namespace_url e (Store (fst dn)))
       # map (\<lambda>n. api_request e (snapshots_url e (Store (fst dn)) n)) (filter (\<lambda>n. n \<noteq> []) (snd dn))"

definition scrape_calls :: "Exporter \<Rightarrow> Datastore list \<Rightarrow> string list list \<Rightarrow> Request list" where
  "scrape_calls e dss nss =
     api_request e (usage_url e) # concat (map (datastore_calls e) (zip dss nss)) @ [api_request e (node_url e)]"

definition up_metric :: "real \<Rightarrow> Metric" where
  "up_metric v = MustNewConstMetric up GaugeValue (Float64 v) []"

definition snapshot_count_metric :: "string \<Rightarrow> int \<Rightarrow> Metric" where
  "snapshot_count_metric namespace n = MustNewConstMetric snapshot_count GaugeValue (Float64_of_int n) [namespace]"

text \<open>
  A sample as the source builds it: a gauge whose label values are as many as the
  variable labels of its descriptor.
\<close>

definition well_formed :: "Metric \<Rightarrow> bool" where
  "well_formed m \<longleftrightarrow> valType m = GaugeValue \<and> length (labelValues m) = length (variableLabels (desc m))"

text \<open>The samples of one namespace and of one datastore, in the order written.\<close>

definition namespace_metrics :: "Env \<Rightarrow> string \<Rightarrow> SnapshotEntry list \<Rightarrow> Metric list" where
  "namespace_metrics env namespace data =
     snapshot_count_metric namespace (int (length data))
       # map (snapshot_vm_metric namespace) (map_range env (count_snapshots data))"

definition datastore_metrics :: "Datastore \<Rightarrow> Metric list" where
  "datastore_metrics d =
     [MustNewConstMetric available GaugeValue (Float64_of_int64 (Avail d)) [],
      MustNewConstMetric size_desc GaugeValue (Float64_of_int64 (Total d)) [],
      MustNewConstMetric used GaugeValue (Float64_of_int64 (Used d)) []]"

text \<open>
  The value a configuration item takes: the value of its environment variable when
  that is set and not empty, the value of the flag otherwise.
\<close>

definition effective_value :: "(string \<rightharpoonup> string) \<Rightarrow> string \<Rightarrow> string \<Rightarrow> string" where
  "effective_value environ key flag_value =
     (case environ key of
        None \<Rightarrow> flag_value
      | Some v \<Rightarrow> if v \<noteq> [] then v else flag_value)"

subsection \<open>The trace of a scrape\<close>

text \<open>
  What a sample shows when it is exposed: the metric name, the type, the label values and
  the value.
\<close>

type_synonym sample_view = "string \<times> ValueType \<times> string list \<times> float64"

definition view :: "Metric \<Rightarrow> sample_view" where
  "view m = (fqName (desc m), valType m, labelValues m, val m)"

text \<open>
  A fetch: the call to \<open>url\<close>, made after the requests \<open>hist\<close>, gives a body when
  \<^verbatim>\<open>http.NewRequest\<close> accepts the URL, \<^verbatim>\<open>client.Do\<close> returns a response, the body of
  the response can be read and its status code is 200. In every other case the fetch
  fails. A request is sent whenever the URL is accepted.
\<close>

definition fetch :: "Env \<Rightarrow> Exporter \<Rightarrow> Request list \<Rightarrow> string \<Rightarrow> string option" where
  "fetch env e hist url =
     (case NewRequest_error env url of
        Some msg \<Rightarrow> None
      | None \<Rightarrow>
          (case Do env hist (api_request e url) of
             Inl msg \<Rightarrow> None
           | Inr resp \<Rightarrow>
               (case Body resp of
                  Inl msg \<Rightarrow> None
                | Inr body \<Rightarrow> if StatusCode resp = 200 then Some body else None)))"

definition requested :: "Env \<Rightarrow> Exporter \<Rightarrow> string \<Rightarrow> Request list" where
  "requested env e url = (if NewRequest_error env url = None then [api_request e url] else [])"

text \<open>
  The four fetches of the exporter, with their decoding: each gives the decoded value,
  or fails when the fetch fails or the body cannot be decoded.
\<close>

definition usage_listing :: "Env \<Rightarrow> Exporter \<Rightarrow> Request list \<Rightarrow> Datastore list option" where
  "usage_listing env e hist =
     (case fetch env e hist (usage_url e) of
        None \<Rightarrow> None
      | Some body \<Rightarrow> (case Unmarshal_DatastoreResponse env body of Inl msg \<Rightarrow> None | Inr data \<Rightarrow> Some data))"

definition namespace_listing :: "Env \<Rightarrow> Exporter \<Rightarrow> Request list \<Rightarrow> string \<Rightarrow> string list option" where
  "namespace_listing env e hist store =
     (case fetch env e hist (namespace_url e store) of
        None \<Rightarrow> None
      | Some body \<Rightarrow>
          (case Unmarshal_NamespaceResponse env body of Inl msg \<Rightarrow> None | Inr data \<Rightarrow> Some (map Namespace data)))"

definition snapshot_listing :: "Env \<Rightarrow> Exporter \<Rightarrow> Request list \<Rightarrow> string \<Rightarrow> string \<Rightarrow> string list option" where
  "snapshot_listing env e hist store namespace =
     (case fetch env e hist (snapshots_url e store namespace) of
        None \<Rightarrow> None
      | Some body \<Rightarrow>
          (case Unmarshal_SnapshotResponse env body of Inl msg \<Rightarrow> None | Inr data \<Rightarrow> Some (map BackupID data)))"

definition node_status :: "Env \<Rightarrow> Exporter \<Rightarrow> Request list \<Rightarrow> HostData option" where
  "node_status env e hist =
     (case fetch env e hist (node_url e) of
        None \<Rightarrow> None
      | Some body \<Rightarrow> (case Unmarshal_HostResponse env body of Inl msg \<Rightarrow> None | Inr d \<Rightarrow> Some d))"

text \<open>
  The events of a scrape: a fetch of a URL with its outcome (\<open>True\<close> when it gave a
  decoded value), the three gauges of a datastore, the snapshot counts of a namespace for
  the backup ids of its listing, and the samples of the host.
\<close>

datatype event =
    Call string bool
  | Gauges Datastore
  | Counts string "string list"
  | HostSamples HostData

fun is_failed :: "event \<Rightarrow> bool" where
  "is_failed (Call url ok) = (\<not> ok)"
| "is_failed (Gauges d) = False"
| "is_failed (Counts namespace ids) = False"
| "is_failed (HostSamples h) = False"

definition failed :: "event list \<Rightarrow> bool" where
  "failed t = list_ex is_failed t"

fun event_requests :: "Env \<Rightarrow> Exporter \<Rightarrow> event \<Rightarrow> Request list" where
  "event_requests env e (Call url ok) = requested env e url"
| "event_requests env e (Gauges d) = []"
| "event_requests env e (Counts namespace ids) = []"
| "event_requests env e (HostSamples h) = []"

definition requests :: "Env \<Rightarrow> Exporter \<Rightarrow> event list \<Rightarrow> Request list" where
  "requests env e t = concat (map (event_requests env e) t)"

text \<open>
  The scrape, read as a sequence of events that depends on the answers of the server
  only. The usage listing is fetched first. Then, for each datastore in the order of the
  listing: its gauges are written, its namespace listing is fetched, and for each
  non-empty namespace name in the order of that listing the snapshot listing is fetched
  and the counts are written. The node status is fetched last and the host samples are
  written. The first fetch that fails ends the sequence.
\<close>

fun namespaces_trace :: "Env \<Rightarrow> Exporter \<Rightarrow> string \<Rightarrow> string list \<Rightarrow> Request list \<Rightarrow> event list" where
  "namespaces_trace env e store [] hist = []"
| "namespaces_trace env e store (n # ns) hist =
     (if n = [] then namespaces_trace env e store ns hist
      else case snapshot_listing env e hist store n of
             None \<Rightarrow> [Call (snapshots_url e store n) False]
           | Some ids \<Rightarrow>
               Call (snapshots_url e store n) True # Counts n ids
                 # namespaces_trace env e store ns (hist @ [api_request e (snapshots_url e store n)]))"

definition datastore_trace :: "Env \<Rightarrow> Exporter \<Rightarrow> Datastore \<Rightarrow> Request list \<Rightarrow> event list" where
  "datastore_trace env e d hist =
     Gauges d
       # (case namespace_listing env e hist (Store d) of
            None \<Rightarrow> [Call (namespace_url e (Store d)) False]
          | Some names \<Rightarrow>
              Call (namespace_url e (Store d)) True
                # namespaces_trace env e (Store d) names (hist @ [api_request e (namespace_url e (Store d))]))"

fun datastores_trace :: "Env \<Rightarrow> Exporter \<Rightarrow> Datastore list \<Rightarrow> Request list \<Rightarrow> event list" where
  "datastores_trace env e [] hist = []"
| "datastores_trace env e (d # ds) hist =
     (if failed (datastore_trace env e d hist) then datastore_trace env e d hist
      else datastore_trace env e d hist
             @ datastores_trace env e ds (hist @ requests env e (datastore_trace env e d hist)))"

definition scrape_trace :: "Env \<Rightarrow> Exporter \<Rightarrow> Request list \<Rightarrow> event list" where
  "scrape_trace env e hist =
     (case usage_listing env e hist of
        None \<Rightarrow> [Call (usage_url e) False]
      | Some dss \<Rightarrow>
          (let t = Call (usage_url e) True # datastores_trace env e dss (hist @ [api_request e (usage_url e)])
           in if failed t then t
              else t @ (case node_status env e (hist @ requests env e t) of
                          None \<Rightarrow> [Call (node_url e) False]
                        | Some h \<Rightarrow> [Call (node_url e) True, HostSamples h])))"

text \<open>
  The samples an event writes, as they are exposed. The per-source counts of a namespace
  come in any order: one for each distinct backup id, with the number of times it occurs.
\<close>

fun writes :: "event \<Rightarrow> sample_view list \<Rightarrow> bool" where
  "writes (Call url ok) vs \<longleftrightarrow> vs = []"
| "writes (Gauges d) vs \<longleftrightarrow>
     vs = [(''pbs_available'', GaugeValue, [], Float64_of_int64 (Avail d)),
           (''pbs_size'', GaugeValue, [], Float64_of_int64 (Total d)),
           (''pbs_used'', GaugeValue, [], Float64_of_int64 (Used d))]"
| "writes (Counts namespace ids) vs \<longleftrightarrow>
     (case vs of
        [] \<Rightarrow> False
      | c # rest \<Rightarrow>
          c = (''pbs_snapshot_count'', GaugeValue, [namespace], Float64_of_int (int (length ids)))
          \<and> mset rest =
              mset (map (\<lambda>k. (''pbs_snapshot_vm_count'', GaugeValue, [namespace, k],
                               Float64_of_int (int (count_list ids k))))
                     (remdups ids)))"
| "writes (HostSamples h) vs \<longleftrightarrow>
     vs = [(''pbs_host_cpu_usage'', GaugeValue, [], Float64 (CPU h)),
           (''pbs_host_memory_free'', GaugeValue, [], Float64_of_int64 (Mem_Free h)),
           (''pbs_host_memory_total'', GaugeValue, [], Float64_of_int64 (Mem_Total h)),
           (''pbs_host_memory_used'', GaugeValue, [], Float64_of_int64 (Mem_Used h)),
           (''pbs_host_swap_free'', GaugeValue, [], Float64_of_int64 (Swap_Free h)),
           (''pbs_host_swap_total'', GaugeValue, [], Float64_of_int64 (Swap_Total h)),
           (''pbs_host_swap_used'', GaugeValue, [], Float64_of_int64 (Swap_Used h)),
           (''pbs_host_available_free'', GaugeValue, [], Float64_of_int64 (Disk_Avail h)),
           (''pbs_host_disk_total'', GaugeValue, [], Float64_of_int64 (Disk_Total h)),
           (''pbs_host_disk_used'', GaugeValue, [], Float64_of_int64 (Disk_Used h)),
           (''pbs_host_uptime'', GaugeValue, [], Float64_of_int64 (Uptime h)),
           (''pbs_host_io_wait'', GaugeValue, [], Float64 (Wait h))]"

text \<open>
  \<^verbatim>\<open>range\<close> visits every entry of a map once: \<open>visits_once\<close>. A run of a collector from
  the state \<open>w\<close> follows a sequence of events when it returns an error exactly if a fetch
  of the sequence fails, sends the requests of the sequence and nothing else, and writes
  samples that are, event by event and in order, the samples of its events (for the
  counts of a namespace this needs \<open>visits_once\<close>).
\<close>

definition visits_once :: "Env \<Rightarrow> bool" where
  "visits_once env \<longleftrightarrow> (\<forall>m. mset (map_range env m) = mset m)"

definition follows :: "Env \<Rightarrow> Exporter \<Rightarrow> World \<Rightarrow> error option \<times> World \<Rightarrow> event list \<Rightarrow> bool" where
  "follows env e w res t \<longleftrightarrow>
     (fst res = None \<longleftrightarrow> \<not> failed t)
     \<and> (\<exists>ms vss. snd res = w\<lparr>sent := sent w @ requests env e t, ch := ch w @ ms\<rparr>
            \<and> map view ms = concat vss
            \<and> (visits_once env \<longrightarrow> list_all2 writes t vss))"

section \<open>Examples\<close>

subsection \<open>An example server\<close>

text \<open>
  A server given by a table from URL to response; any other URL is refused. It has one
  datastore \<open>ds1\<close> with the root namespace and the namespace \<open>n1\<close>, which holds three
  snapshots of the backup sources \<open>a\<close>, \<open>a\<close> and \<open>b\<close> (or none, in \<open>empty_namespace\<close>).
  The bodies are tokens that the decoders of the example map to the decoded values.
  \<^verbatim>\<open>range\<close> visits a map from its last entry to its first.
\<close>

definition ok200 :: "string \<Rightarrow> Response" where
  "ok200 body = \<lparr>StatusCode = 200, Body = Inr body\<rparr>"

definition status500 :: Response where
  "status500 = \<lparr>StatusCode = 500, Body = Inr []\<rparr>"

definition ex_datastore :: Datastore where
  "ex_datastore = \<lparr>Avail = 70, Store = ''ds1'', Total = 100, Used = 30, Store_Namespace = []\<rparr>"

definition ex_host :: HostData where
  "ex_host = \<lparr>CPU = 1 / 4, Mem_Free = 1, Mem_Total = 2, Mem_Used = 3, Swap_Free = 4, Swap_Total = 5,
     Swap_Used = 6, Disk_Avail = 7, Disk_Total = 8, Disk_Used = 9, Uptime = 10, Wait = 1 / 8\<rparr>"

definition ex_snapshots :: "SnapshotEntry list" where
  "ex_snapshots = [\<lparr>BackupID = ''a''\<rparr>, \<lparr>BackupID = ''a''\<rparr>, \<lparr>BackupID = ''b''\<rparr>]"

definition ex_env :: "(string \<times> Response) list \<Rightarrow> Env" where
  "ex_env routes =
     \<lparr>NewRequest_error = (\<lambda>url. None),
      Do = (\<lambda>hist req. case map_of routes (URL req) of
                          None \<Rightarrow> Inl ''connection refused''
                        | Some resp \<Rightarrow> Inr resp),
      Unmarshal_DatastoreResponse = (\<lambda>body. if body = ''D'' then Inr [ex_datastore] else Inl ''unexpected end of JSON input''),
      Unmarshal_NamespaceResponse =
        (\<lambda>body. if body = ''N'' then Inr [\<lparr>Namespace = []\<rparr>, \<lparr>Namespace = ''n1''\<rparr>]
                else if body = ''M'' then Inr [\<lparr>Namespace = ''n1''\<rparr>, \<lparr>Namespace = ''n2''\<rparr>]
                else Inl ''unexpected end of JSON input''),
      Unmarshal_SnapshotResponse =
        (\<lambda>body. if body = ''S'' then Inr ex_snapshots
                else if body = ''E'' then Inr []
                else Inl ''unexpected end of JSON input''),
      Unmarshal_HostResponse = (\<lambda>body. if body = ''H'' then Inr ex_host else Inl ''unexpected end of JSON input''),
      map_range = rev\<rparr>"

definition ex_exporter :: Exporter where
  "ex_exporter = NewExporter ''h'' ''root@pam'' ''secret'' ''pbs-exporter''"

definition healthy :: "(string \<times> Response) list" where
  "healthy =
     [(''h/api2/json/status/datastore-usage'', ok200 ''D''),
      (''h/api2/json/admin/datastore/ds1/namespace'', ok200 ''N''),
      (''h/api2/json/admin/datastore/ds1/snapshots?ns=n1'', ok200 ''S''),
      (''h/api2/json/nodes/localhost/status'', ok200 ''H'')]"


definition empty_namespace :: "(string \<times> Response) list" where
  "empty_namespace =
     [(''h/api2/json/status/datastore-usage'', ok200 ''D''),
      (''h/api2/json/admin/datastore/ds1/namespace'', ok200 ''N''),
      (''h/api2/json/admin/datastore/ds1/snapshots?ns=n1'', ok200 ''E''),
      (''h/api2/json/nodes/localhost/status'', ok200 ''H'')]"

text \<open>
  Two namespaces \<open>n1\<close> and \<open>n2\<close> are listed, and the snapshot listing of \<open>n1\<close> answers
  500.
\<close>

definition first_namespace_fails :: "(string \<times> Response) list" where
  "first_namespace_fails =
     [(''h/api2/json/status/datastore-usage'', ok200 ''D''),
      (''h/api2/json/admin/datastore/ds1/namespace'', ok200 ''M''),
      (''h/api2/json/admin/datastore/ds1/snapshots?ns=n1'', status500),
      (''h/api2/json/admin/datastore/ds1/snapshots?ns=n2'', ok200 ''S''),
      (''h/api2/json/nodes/localhost/status'', ok200 ''H'')]"

text \<open>The usage listing answers 500 and the connection breaks while its body is read.\<close>

definition unreadable500 :: Response where
  "unreadable500 = \<lparr>StatusCode = 500, Body = Inl ''unexpected EOF''\<rparr>"

definition usage_listing_unreadable :: "(string \<times> Response) list" where
  "usage_listing_unreadable =
     [(''h/api2/json/status/datastore-usage'', unreadable500),
      (''h/api2/json/admin/datastore/ds1/namespace'', ok200 ''N''),
      (''h/api2/json/admin/datastore/ds1/snapshots?ns=n1'', ok200 ''S''),
      (''h/api2/json/nodes/localhost/status'', ok200 ''H'')]"

definition usage_listing_fails :: "(string \<times> Response) list" where
  "usage_listing_fails =
     [(''h/api2/json/status/datastore-usage'', status500),
      (''h/api2/json/admin/datastore/ds1/namespace'', ok200 ''N''),
      (''h/api2/json/admin/datastore/ds1/snapshots?ns=n1'', ok200 ''S''),
      (''h/api2/json/nodes/localhost/status'', ok200 ''H'')]"

subsection \<open>An example start\<close>

text \<open>
  An example start: the flags at their defaults, and an environment that sets the
  endpoint, the token and the insecure flag, and sets the username to the empty string.
\<close>

definition ex_flags :: Flags where
  "ex_flags = \<lparr>endpoint_flag = ''http://localhost:8007'', username = ''root@pam'', apitoken = [],
     apitokenname = ''pbs-exporter'', timeout = ''5s'', insecure = ''false'', metricsPath = ''/metrics'',
     listenAddress = '':9101'', loglevel = ''info''\<rparr>"

definition ex_environ :: "string \<rightharpoonup> string" where
  "ex_environ = [''PBS_ENDPOINT'' \<mapsto> ''https://pbs:8007'', ''PBS_API_TOKEN'' \<mapsto> ''secret'',
     ''PBS_INSECURE'' \<mapsto> ''true'', ''PBS_USERNAME'' \<mapsto> []]"

definition ex_ParseDuration :: "string \<Rightarrow> string + int" where
  "ex_ParseDuration str = (if str = ''5s'' then Inr 5000000000 else Inl ''time: invalid duration'')"

definition ex_startup :: Startup where
  "ex_startup =
     \<lparr>exporter = \<lparr>endpoint = ''https://pbs:8007'',
                  authorizationHeader = ''PBSAPIToken=root@pam!pbs-exporter:secret''\<rparr>,
      InsecureSkipVerify = True, Timeout = 5000000000,
      metrics_route = ''/metrics'', listen_on = '':9101'',
      effective = ex_flags\<lparr>endpoint_flag := ''https://pbs:8007'', apitoken := ''secret'', insecure := ''true''\<rparr>\<rparr>"

section \<open>Metric names\<close>

lemmas desc_defs = up_def available_def size_desc_def used_def snapshot_count_def snapshot_vm_count_def
  host_cpu_usage_def host_memory_free_def host_memory_total_def host_memory_used_def
  host_swap_free_def host_swap_total_def host_swap_used_def host_disk_available_def
  host_disk_total_def host_disk_used_def host_uptime_def host_io_wait_def

lemma fqName_simps:
  "fqName up = ''pbs_up''"
  "fqName available = ''pbs_available''"
  "fqName size_desc = ''pbs_size''"
  "fqName used = ''pbs_used''"
  "fqName snapshot_count = ''pbs_snapshot_count''"
  "fqName snapshot_vm_count = ''pbs_snapshot_vm_count''"
  "fqName host_cpu_usage = ''pbs_host_cpu_usage''"
  "fqName host_memory_free = ''pbs_host_memory_free''"
  "fqName host_memory_total = ''pbs_host_memory_total''"
  "fqName host_memory_used = ''pbs_host_memory_used''"
  "fqName host_swap_free = ''pbs_host_swap_free''"
  "fqName host_swap_total = ''pbs_host_swap_total''"
  "fqName host_swap_used = ''pbs_host_swap_used''"
  "fqName host_disk_available = ''pbs_host_available_free''"
  "fqName host_disk_total = ''pbs_host_disk_total''"
  "fqName host_disk_used = ''pbs_host_disk_used''"
  "fqName host_uptime = ''pbs_host_uptime''"
  "fqName host_io_wait = ''pbs_host_io_wait''"
  by (simp_all add: desc_defs NewDesc_def BuildFQName_def promNamespace_def)

text \<open>
  Claim C10. The gauge of the available bytes of the root disk, \<open>host_disk_available\<close>,
  has the metric name \<open>pbs_host_available_free\<close>, which does not start with
  \<open>pbs_host_disk_\<close>, while the gauges of the total and the used bytes are named
  \<open>pbs_host_disk_total\<close> and \<open>pbs_host_disk_used\<close>.
\<close>

theorem host_disk_available_name:
  "fqName host_disk_available = ''pbs_host_available_free''
   \<and> \<not> prefix ''pbs_host_disk_'' (fqName host_disk_available)
   \<and> fqName host_disk_total = ''pbs_host_disk_total''
   \<and> fqName host_disk_used = ''pbs_host_disk_used''
   \<and> prefix ''pbs_host_disk_'' (fqName host_disk_total)
   \<and> prefix ''pbs_host_disk_'' (fqName host_disk_used)"
  by (simp add: host_disk_available_def host_disk_total_def host_disk_used_def NewDesc_def
      BuildFQName_def promNamespace_def)

section \<open>Configuration\<close>

lemma Getenv_effective:
  "(if Getenv environ key \<noteq> [] then Getenv environ key else v) = effective_value environ key v"
  by (simp add: Getenv_def effective_value_def split: option.splits)

lemma override_step:
  "(if Getenv environ k \<noteq> [] then g\<lparr>loglevel := Getenv environ k\<rparr> else g) = g\<lparr>loglevel := effective_value environ k (loglevel g)\<rparr>"
  "(if Getenv environ k \<noteq> [] then g\<lparr>endpoint_flag := Getenv environ k\<rparr> else g) = g\<lparr>endpoint_flag := effective_value environ k (endpoint_flag g)\<rparr>"
  "(if Getenv environ k \<noteq> [] then g\<lparr>username := Getenv environ k\<rparr> else g) = g\<lparr>username := effective_value environ k (username g)\<rparr>"
  "(if Getenv environ k \<noteq> [] then g\<lparr>apitokenname := Getenv environ k\<rparr> else g) = g\<lparr>apitokenname := effective_value environ k (apitokenname g)\<rparr>"
  "(if Getenv environ k \<noteq> [] then g\<lparr>apitoken := Getenv environ k\<rparr> else g) = g\<lparr>apitoken := effective_value environ k (apitoken g)\<rparr>"
  "(if Getenv environ k \<noteq> [] then g\<lparr>timeout := Getenv environ k\<rparr> else g) = g\<lparr>timeout := effective_value environ k (timeout g)\<rparr>"
  "(if Getenv environ k \<noteq> [] then g\<lparr>insecure := Getenv environ k\<rparr> else g) = g\<lparr>insecure := effective_value environ k (insecure g)\<rparr>"
  "(if Getenv environ k \<noteq> [] then g\<lparr>metricsPath := Getenv environ k\<rparr> else g) = g\<lparr>metricsPath := effective_value environ k (metricsPath g)\<rparr>"
  "(if Getenv environ k \<noteq> [] then g\<lparr>listenAddress := Getenv environ k\<rparr> else g) = g\<lparr>listenAddress := effective_value environ k (listenAddress g)\<rparr>"
  by (simp_all add: Getenv_effective[symmetric])

lemma env_override_eq:
  "env_override environ f =
     \<lparr>endpoint_flag = effective_value environ ''PBS_ENDPOINT'' (endpoint_flag f),
      username = effective_value environ ''PBS_USERNAME'' (username f),
      apitoken = effective_value environ ''PBS_API_TOKEN'' (apitoken f),
      apitokenname = effective_value environ ''PBS_API_TOKEN_NAME'' (apitokenname f),
      timeout = effective_value environ ''PBS_TIMEOUT'' (timeout f),
      insecure = effective_value environ ''PBS_INSECURE'' (insecure f),
      metricsPath = effective_value environ ''PBS_METRICS_PATH'' (metricsPath f),
      listenAddress = effective_value environ ''PBS_LISTEN_ADDRESS'' (listenAddress f),
      loglevel = effective_value environ ''PBS_LOGLEVEL'' (loglevel f)\<rparr>"
  unfolding env_override_def override_step Let_def
  by (cases f) simp

text \<open>
  Claim C8. After the environment has been read, each of the nine configuration items
  (endpoint, username, API token, API token name, timeout, insecure flag, metrics path,
  listen address, log level) is the value of its environment variable when that is set
  and not empty, and the value of the flag otherwise. When \<^verbatim>\<open>main\<close> gets as far as
  starting the server, the exporter, the TLS setting, the timeout, the metrics path and
  the listen address are made from these values.
\<close>

theorem environment_overrides_flags:
  "endpoint_flag (env_override environ f) = effective_value environ ''PBS_ENDPOINT'' (endpoint_flag f)
   \<and> username (env_override environ f) = effective_value environ ''PBS_USERNAME'' (username f)
   \<and> apitoken (env_override environ f) = effective_value environ ''PBS_API_TOKEN'' (apitoken f)
   \<and> apitokenname (env_override environ f) = effective_value environ ''PBS_API_TOKEN_NAME'' (apitokenname f)
   \<and> timeout (env_override environ f) = effective_value environ ''PBS_TIMEOUT'' (timeout f)
   \<and> insecure (env_override environ f) = effective_value environ ''PBS_INSECURE'' (insecure f)
   \<and> metricsPath (env_override environ f) = effective_value environ ''PBS_METRICS_PATH'' (metricsPath f)
   \<and> listenAddress (env_override environ f) = effective_value environ ''PBS_LISTEN_ADDRESS'' (listenAddress f)
   \<and> loglevel (env_override environ f) = effective_value environ ''PBS_LOGLEVEL'' (loglevel f)
   \<and> (\<forall>s. main environ ParseDuration f = Inr s \<longrightarrow>
         effective s = env_override environ f
         \<and> exporter s = NewExporter (effective_value environ ''PBS_ENDPOINT'' (endpoint_flag f))
                          (effective_value environ ''PBS_USERNAME'' (username f))
                          (effective_value environ ''PBS_API_TOKEN'' (apitoken f))
                          (effective_value environ ''PBS_API_TOKEN_NAME'' (apitokenname f))
         \<and> ParseBool (effective_value environ ''PBS_INSECURE'' (insecure f)) = Inr (InsecureSkipVerify s)
         \<and> ParseDuration (effective_value environ ''PBS_TIMEOUT'' (timeout f)) = Inr (Timeout s)
         \<and> metrics_route s = effective_value environ ''PBS_METRICS_PATH'' (metricsPath f)
         \<and> listen_on s = effective_value environ ''PBS_LISTEN_ADDRESS'' (listenAddress f))"
proof -
  have fields: "endpoint_flag (env_override environ f) = effective_value environ ''PBS_ENDPOINT'' (endpoint_flag f)"
    "username (env_override environ f) = effective_value environ ''PBS_USERNAME'' (username f)"
    "apitoken (env_override environ f) = effective_value environ ''PBS_API_TOKEN'' (apitoken f)"
    "apitokenname (env_override environ f) = effective_value environ ''PBS_API_TOKEN_NAME'' (apitokenname f)"
    "timeout (env_override environ f) = effective_value environ ''PBS_TIMEOUT'' (timeout f)"
    "insecure (env_override environ f) = effective_value environ ''PBS_INSECURE'' (insecure f)"
    "metricsPath (env_override environ f) = effective_value environ ''PBS_METRICS_PATH'' (metricsPath f)"
    "listenAddress (env_override environ f) = effective_value environ ''PBS_LISTEN_ADDRESS'' (listenAddress f)"
    "loglevel (env_override environ f) = effective_value environ ''PBS_LOGLEVEL'' (loglevel f)"
    by (simp_all add: env_override_eq)
  have started: "effective s = env_override environ f
         \<and> exporter s = NewExporter (endpoint_flag (env_override environ f)) (username (env_override environ f))
                          (apitoken (env_override environ f)) (apitokenname (env_override environ f))
         \<and> ParseBool (insecure (env_override environ f)) = Inr (InsecureSkipVerify s)
         \<and> ParseDuration (timeout (env_override environ f)) = Inr (Timeout s)
         \<and> metrics_route s = metricsPath (env_override environ f)
         \<and> listen_on s = listenAddress (env_override environ f)"
    if m: "main environ ParseDuration f = Inr s" for s
  proof (cases "ParseBool (insecure (env_override environ f))")
    case (Inl err)
    with m show ?thesis by (simp add: main_def Let_def)
  next
    case b: (Inr b)
    show ?thesis
    proof (cases "ParseDuration (timeout (env_override environ f))")
      case (Inl err)
      with m b show ?thesis by (simp add: main_def Let_def)
    next
      case (Inr d)
      with m b show ?thesis by (cases b) (auto simp add: main_def Let_def)
    qed
  qed
  show ?thesis
    using started unfolding fields by blast
qed

text \<open>
  The example start: the endpoint, the token and the insecure flag come from the
  environment; the username, set to the empty string there, keeps the value of its flag.
\<close>

theorem environment_overrides_flags_witness:
  "main ex_environ ex_ParseDuration ex_flags = Inr ex_startup
   \<and> endpoint (exporter ex_startup) = ''https://pbs:8007''
   \<and> authorizationHeader (exporter ex_startup) = ''PBSAPIToken=root@pam!pbs-exporter:secret''
   \<and> InsecureSkipVerify ex_startup
   \<and> username (effective ex_startup) = ''root@pam''"
proof -
  have m: "main ex_environ ex_ParseDuration ex_flags = Inr ex_startup"
    by (simp add: main_def env_override_eq effective_value_def ex_environ_def ex_flags_def
        ex_ParseDuration_def ex_startup_def ParseBool_def NewExporter_def)
  have "exporter ex_startup =
      NewExporter (effective_value ex_environ ''PBS_ENDPOINT'' (endpoint_flag ex_flags))
        (effective_value ex_environ ''PBS_USERNAME'' (username ex_flags))
        (effective_value ex_environ ''PBS_API_TOKEN'' (apitoken ex_flags))
        (effective_value ex_environ ''PBS_API_TOKEN_NAME'' (apitokenname ex_flags))"
    using environment_overrides_flags [of ex_environ ex_flags ex_ParseDuration] m by blast
  then show ?thesis
    using m by (simp add: ex_startup_def ex_flags_def NewExporter_def effective_value_def ex_environ_def)
qed

section \<open>One API call\<close>

text \<open>
  \<open>apiGet\<close> changes nothing but the list of requests sent, to which it adds the request
  unless \<^verbatim>\<open>http.NewRequest\<close> rejects the URL; its result depends on the state only
  through that list.
\<close>

lemma ch_sent_swap: "w\<lparr>ch := c, sent := s\<rparr> = w\<lparr>sent := s, ch := c\<rparr>"
  by simp

lemma fold_send: "fold send ms w = w\<lparr>ch := ch w @ ms\<rparr>"
  by (induction ms arbitrary: w) (simp_all add: send_def)

lemma fold_send_map: "fold (\<lambda>x. send (f x)) xs w = w\<lparr>ch := ch w @ map f xs\<rparr>"
  by (induction xs arbitrary: w) (simp_all add: send_def)

lemma apiGet_answers:
  assumes "answers env e w url resp"
  shows "apiGet env e pfx url w =
           (case Body resp of
              Inl msg \<Rightarrow> Inl (ReadAllError msg)
            | Inr body \<Rightarrow> if StatusCode resp \<noteq> 200 then Inl (StatusError pfx (StatusCode resp) (endpoint e)) else Inr body,
            w\<lparr>sent := sent w @ [api_request e url]\<rparr>)"
  using assms
  by (simp add: apiGet_def answers_def NewRequest_def Header_Set_def api_request_def Let_def split: sum.splits)

lemma apiGet_Inr:
  assumes "apiGet env e pfx url w = (Inr body, w1)"
  shows "w1 = w\<lparr>sent := sent w @ [api_request e url]\<rparr>
         \<and> (\<exists>resp. answers env e w url resp \<and> StatusCode resp = 200 \<and> Body resp = Inr body)"
  using assms
  by (auto simp add: apiGet_def answers_def NewRequest_def Header_Set_def api_request_def Let_def
      split: sum.splits option.splits if_splits)

lemma apiGet_snd:
  "snd (apiGet env e pfx url w) =
     w\<lparr>sent := sent w @ (if NewRequest_error env url = None then [api_request e url] else [])\<rparr>"
  by (simp add: apiGet_def NewRequest_def Header_Set_def api_request_def Let_def
      split: sum.splits option.splits)

lemma apiGet_fst_ch: "fst (apiGet env e pfx url (w\<lparr>ch := c\<rparr>)) = fst (apiGet env e pfx url w)"
  by (simp add: apiGet_def NewRequest_def Let_def split: sum.splits option.splits)

lemma apiGet_fst_Inr:
  assumes "fst (apiGet env e pfx url w) = Inr body"
  shows "NewRequest_error env url = None"
  using assms by (cases "NewRequest_error env url") (simp_all add: apiGet_def NewRequest_def)

lemma apiGet_eq:
  "apiGet env e pfx url w =
     (fst (apiGet env e pfx url w),
      w\<lparr>sent := sent w @ (if NewRequest_error env url = None then [api_request e url] else [])\<rparr>)"
  by (metis apiGet_snd prod.collapse)

lemma apiGet_fst_Inr_answers:
  assumes "fst (apiGet env e pfx url w) = Inr body"
  shows "\<exists>resp. answers env e w url resp \<and> StatusCode resp = 200 \<and> Body resp = Inr body"
  using assms apiGet_Inr [of env e pfx url w body "snd (apiGet env e pfx url w)"]
  by (metis prod.collapse)

lemma apiGet_ok:
  assumes "answers env e w url resp" "StatusCode resp = 200" "Body resp = Inr body"
  shows "fst (apiGet env e pfx url w) = Inr body"
  using assms(2,3) by (simp add: apiGet_answers [OF assms(1)])

lemma apiGet_non200:
  assumes ans: "answers env e w url resp" and non200: "StatusCode resp \<noteq> 200"
  shows "fst (apiGet env e pfx url w) = Inl (non200_error e pfx resp)"
  using non200 by (simp add: apiGet_answers [OF ans] non200_error_def split: sum.splits)

section \<open>The collectors, case by case\<close>

lemma well_formed_simps:
  "well_formed (MustNewConstMetric up GaugeValue v [])"
  "well_formed (MustNewConstMetric available GaugeValue v [])"
  "well_formed (MustNewConstMetric size_desc GaugeValue v [])"
  "well_formed (MustNewConstMetric used GaugeValue v [])"
  "well_formed (MustNewConstMetric snapshot_count GaugeValue v [a])"
  "well_formed (MustNewConstMetric snapshot_vm_count GaugeValue v [a, b])"
  by (simp_all add: well_formed_def MustNewConstMetric_def desc_defs NewDesc_def)

lemma desc_MustNewConstMetric: "desc (MustNewConstMetric d t v ls) = d"
  by (simp add: MustNewConstMetric_def)

lemma getNamespaceMetric_eq:
  "getNamespaceMetric env e d n w =
     (case fst (apiGet env e ''ERROR: ----'' (snapshots_url e d n) w) of
        Inl err \<Rightarrow> (Some err, w\<lparr>sent := sent w @ (if NewRequest_error env (snapshots_url e d n) = None
                                                     then [api_request e (snapshots_url e d n)] else [])\<rparr>)
      | Inr body \<Rightarrow>
          (case Unmarshal_SnapshotResponse env body of
             Inl msg \<Rightarrow> (Some (UnmarshalError msg), w\<lparr>sent := sent w @ [api_request e (snapshots_url e d n)]\<rparr>)
           | Inr data \<Rightarrow> (None, w\<lparr>sent := sent w @ [api_request e (snapshots_url e d n)],
                                   ch := ch w @ namespace_metrics env n data\<rparr>)))"
proof -
  let ?url = "snapshots_url e d n"
  have unfold: "getNamespaceMetric env e d n w =
     (case apiGet env e ''ERROR: ----'' ?url w of
        (Inl err, w1) \<Rightarrow> (Some err, w1)
      | (Inr body, w1) \<Rightarrow>
          (case Unmarshal_SnapshotResponse env body of
             Inl msg \<Rightarrow> (Some (UnmarshalError msg), w1)
           | Inr data \<Rightarrow> (None, w1\<lparr>ch := ch w1 @ namespace_metrics env n data\<rparr>)))"
    by (simp add: getNamespaceMetric_def snapshots_url_def namespace_metrics_def snapshot_count_metric_def
        Let_def fold_send_map send_def split: prod.splits sum.splits)
  show ?thesis
  proof (cases "fst (apiGet env e ''ERROR: ----'' ?url w)")
    case (Inl err)
    then show ?thesis
      unfolding unfold by (subst apiGet_eq) simp
  next
    case (Inr body)
    from apiGet_fst_Inr [OF this] Inr show ?thesis
      unfolding unfold by (subst apiGet_eq) (simp split: sum.splits)
  qed
qed

lemma getDatastoreMetric_eq:
  "getDatastoreMetric env e d w =
     (case fst (apiGet env e ''ERROR: --'' (namespace_url e (Store d)) w) of
        Inl err \<Rightarrow> (Some err, w\<lparr>sent := sent w @ (if NewRequest_error env (namespace_url e (Store d)) = None
                                                     then [api_request e (namespace_url e (Store d))] else []),
                                  ch := ch w @ datastore_metrics d\<rparr>)
      | Inr body \<Rightarrow>
          (case Unmarshal_NamespaceResponse env body of
             Inl msg \<Rightarrow> (Some (UnmarshalError msg),
                          w\<lparr>sent := sent w @ [api_request e (namespace_url e (Store d))],
                            ch := ch w @ datastore_metrics d\<rparr>)
           | Inr data \<Rightarrow> namespaces_loop env e (Store d) data
                          (w\<lparr>sent := sent w @ [api_request e (namespace_url e (Store d))],
                            ch := ch w @ datastore_metrics d\<rparr>)))"
proof -
  let ?url = "namespace_url e (Store d)"
  let ?w0 = "w\<lparr>ch := ch w @ datastore_metrics d\<rparr>"
  have unfold: "getDatastoreMetric env e d w =
     (case apiGet env e ''ERROR: --'' ?url ?w0 of
        (Inl err, w1) \<Rightarrow> (Some err, w1)
      | (Inr body, w1) \<Rightarrow>
          (case Unmarshal_NamespaceResponse env body of
             Inl msg \<Rightarrow> (Some (UnmarshalError msg), w1)
           | Inr data \<Rightarrow> namespaces_loop env e (Store d) data w1))"
    by (simp add: getDatastoreMetric_def namespace_url_def datastore_metrics_def Let_def send_def)
  have fst0: "fst (apiGet env e ''ERROR: --'' ?url ?w0) = fst (apiGet env e ''ERROR: --'' ?url w)"
    by (rule apiGet_fst_ch)
  show ?thesis
  proof (cases "fst (apiGet env e ''ERROR: --'' ?url w)")
    case (Inl err)
    then show ?thesis
      unfolding unfold by (subst apiGet_eq) (simp add: fst0)
  next
    case (Inr body)
    from apiGet_fst_Inr [OF this] Inr show ?thesis
      unfolding unfold by (subst apiGet_eq) (simp add: fst0 ch_sent_swap split: sum.splits)
  qed
qed

lemma getNodeMetrics_eq:
  "getNodeMetrics env e w =
     (case fst (apiGet env e ''ERROR: '' (node_url e) w) of
        Inl err \<Rightarrow> (Some err, w\<lparr>sent := sent w @ (if NewRequest_error env (node_url e) = None
                                                     then [api_request e (node_url e)] else [])\<rparr>)
      | Inr body \<Rightarrow>
          (case Unmarshal_HostResponse env body of
             Inl msg \<Rightarrow> (Some (UnmarshalError msg), w\<lparr>sent := sent w @ [api_request e (node_url e)]\<rparr>)
           | Inr d \<Rightarrow> (None, w\<lparr>sent := sent w @ [api_request e (node_url e)],
                                ch := ch w @ host_metrics d\<rparr>)))"
proof -
  have unfold: "getNodeMetrics env e w =
     (case apiGet env e ''ERROR: '' (node_url e) w of
        (Inl err, w1) \<Rightarrow> (Some err, w1)
      | (Inr body, w1) \<Rightarrow>
          (case Unmarshal_HostResponse env body of
             Inl msg \<Rightarrow> (Some (UnmarshalError msg), w1)
           | Inr d \<Rightarrow> (None, w1\<lparr>ch := ch w1 @ host_metrics d\<rparr>)))"
    by (simp add: getNodeMetrics_def node_url_def fold_send split: prod.splits sum.splits)
  show ?thesis
  proof (cases "fst (apiGet env e ''ERROR: '' (node_url e) w)")
    case (Inl err)
    then show ?thesis
      unfolding unfold by (subst apiGet_eq) simp
  next
    case (Inr body)
    from apiGet_fst_Inr [OF this] Inr show ?thesis
      unfolding unfold by (subst apiGet_eq) (simp split: sum.splits)
  qed
qed

lemma collectFromAPI_eq:
  "collectFromAPI env e w =
     (case fst (apiGet env e ''ERROR: '' (usage_url e) w) of
        Inl err \<Rightarrow> (Some err, w\<lparr>sent := sent w @ (if NewRequest_error env (usage_url e) = None
                                                     then [api_request e (usage_url e)] else [])\<rparr>)
      | Inr body \<Rightarrow>
          (case Unmarshal_DatastoreResponse env body of
             Inl msg \<Rightarrow> (Some (UnmarshalError msg), w\<lparr>sent := sent w @ [api_request e (usage_url e)]\<rparr>)
           | Inr data \<Rightarrow>
               (case datastores_loop env e data (w\<lparr>sent := sent w @ [api_request e (usage_url e)]\<rparr>) of
                  (Some err, w2) \<Rightarrow> (Some err, w2)
                | (None, w2) \<Rightarrow> getNodeMetrics env e w2)))"
proof -
  have unfold: "collectFromAPI env e w =
     (case apiGet env e ''ERROR: '' (usage_url e) w of
        (Inl err, w1) \<Rightarrow> (Some err, w1)
      | (Inr body, w1) \<Rightarrow>
          (case Unmarshal_DatastoreResponse env body of
             Inl msg \<Rightarrow> (Some (UnmarshalError msg), w1)
           | Inr data \<Rightarrow>
               (case datastores_loop env e data w1 of
                  (Some err, w2) \<Rightarrow> (Some err, w2)
                | (None, w2) \<Rightarrow> getNodeMetrics env e w2)))"
    by (simp add: collectFromAPI_def usage_url_def)
  show ?thesis
  proof (cases "fst (apiGet env e ''ERROR: '' (usage_url e) w)")
    case (Inl err)
    then show ?thesis
      unfolding unfold by (subst apiGet_eq) simp
  next
    case (Inr body)
    from apiGet_fst_Inr [OF this] Inr show ?thesis
      unfolding unfold by (subst apiGet_eq) (simp split: sum.splits)
  qed
qed

lemma Collect_eq:
  "Collect env e w =
     (case fst (collectFromAPI env e w) of
        Some err \<Rightarrow> (snd (collectFromAPI env e w))
                      \<lparr>ch := ch (snd (collectFromAPI env e w)) @ [up_metric 0],
                       logged := logged (snd (collectFromAPI env e w)) @ [err]\<rparr>
      | None \<Rightarrow> (snd (collectFromAPI env e w))\<lparr>ch := ch (snd (collectFromAPI env e w)) @ [up_metric 1]\<rparr>)"
  by (simp add: Collect_def up_metric_def send_def split: prod.splits option.splits)

lemma getNamespaceMetric_ok:
  assumes ans: "answers env e w (snapshots_url e store namespace) resp"
    and ok: "StatusCode resp = 200" "Body resp = Inr body"
    and dec: "Unmarshal_SnapshotResponse env body = Inr data"
  shows "getNamespaceMetric env e store namespace w =
           (None, w\<lparr>sent := sent w @ [api_request e (snapshots_url e store namespace)],
                    ch := ch w @ namespace_metrics env namespace data\<rparr>)"
  using apiGet_ok [OF ans ok, of "''ERROR: ----''"] dec by (simp add: getNamespaceMetric_eq)

section \<open>The two loops\<close>

lemma namespaces_loop_for_each:
  "namespaces_loop env e store data w =
     for_each_until_error (getNamespaceMetric env e store) (filter (\<lambda>n. n \<noteq> []) (map Namespace data)) w"
  by (induction data arbitrary: w) (simp_all split: prod.splits option.splits)

lemma datastores_loop_for_each:
  "datastores_loop env e data w = for_each_until_error (getDatastoreMetric env e) data w"
  by (induction data arbitrary: w) (simp_all split: prod.splits option.splits)

lemma for_each_shape:
  assumes step: "\<And>x w r w'. f x w = (r, w') \<Longrightarrow>
            \<exists>c rs ms. C x c \<and> w' = w\<lparr>sent := sent w @ rs, ch := ch w @ ms\<rparr>
               \<and> prefix rs c \<and> (r = None \<longrightarrow> rs = c) \<and> (\<forall>m\<in>set ms. P m)"
      and total: "\<And>x. \<exists>c. C x c"
      and run: "for_each_until_error f xs w = (r, w')"
  shows "\<exists>cs rs ms. list_all2 C xs cs \<and> w' = w\<lparr>sent := sent w @ rs, ch := ch w @ ms\<rparr>
            \<and> prefix rs (concat cs) \<and> (r = None \<longrightarrow> rs = concat cs) \<and> (\<forall>m\<in>set ms. P m)"
  using run
proof (induction xs arbitrary: w)
  case Nil
  then have "r = None" "w' = w\<lparr>sent := sent w @ [], ch := ch w @ []\<rparr>" by simp_all
  then show ?case
    by (intro exI[of _ "[]"]) simp
next
  case (Cons x xs)
  obtain r1 w1 where fx: "f x w = (r1, w1)" by (cases "f x w") blast
  from step [OF fx] obtain c rs ms where c: "C x c"
    and w1: "w1 = w\<lparr>sent := sent w @ rs, ch := ch w @ ms\<rparr>"
    and rs: "prefix rs c" "r1 = None \<longrightarrow> rs = c" and ms: "\<forall>m\<in>set ms. P m"
    by blast
  show ?case
  proof (cases r1)
    case (Some err)
    with Cons.prems fx have res: "r = Some err" "w' = w1" by simp_all
    have "\<exists>cs. list_all2 C xs cs"
      using total by (induction xs) (auto simp add: list_all2_Cons1)
    then obtain cs where cs: "list_all2 C xs cs" ..
    have "list_all2 C (x # xs) (c # cs)" using c cs by simp
    moreover have "prefix rs (concat (c # cs))" using rs(1) by (simp add: prefix_def) auto
    ultimately show ?thesis
      using res w1 ms by (intro exI[of _ "c # cs"] exI[of _ rs] exI[of _ ms]) simp
  next
    case None
    with Cons.prems fx have rest: "for_each_until_error f xs w1 = (r, w')" by simp
    from Cons.IH [OF rest] obtain cs rs' ms' where cs: "list_all2 C xs cs"
      and w': "w' = w1\<lparr>sent := sent w1 @ rs', ch := ch w1 @ ms'\<rparr>"
      and rs': "prefix rs' (concat cs)" "r = None \<longrightarrow> rs' = concat cs" and ms': "\<forall>m\<in>set ms'. P m"
      by blast
    from None rs have rsc: "rs = c" by simp
    have "w' = w\<lparr>sent := sent w @ (rs @ rs'), ch := ch w @ (ms @ ms')\<rparr>"
      using w' w1 by simp
    moreover have "list_all2 C (x # xs) (c # cs)" using c cs by simp
    moreover have "prefix (rs @ rs') (concat (c # cs))" using rs' rsc by simp
    moreover have "r = None \<longrightarrow> rs @ rs' = concat (c # cs)" using rs' rsc by simp
    moreover have "\<forall>m\<in>set (ms @ ms'). P m" using ms ms' by auto
    ultimately show ?thesis
      by (intro exI[of _ "c # cs"] exI[of _ "rs @ rs'"] exI[of _ "ms @ ms'"]) blast
  qed
qed

section \<open>What a run sends and writes\<close>

text \<open>
  For each collector: the state it leaves is the state it started in with requests and
  samples added, the requests are an initial part of the calls the collector makes when
  nothing fails (all of them when it returns no error), and the samples are those of its
  descriptors.
\<close>

lemma namespace_metrics_descs:
  "\<forall>m\<in>set (namespace_metrics env n data). desc m \<in> {snapshot_count, snapshot_vm_count} \<and> well_formed m"
  by (auto simp add: namespace_metrics_def snapshot_count_metric_def snapshot_vm_metric_def
      desc_MustNewConstMetric well_formed_simps)

lemma datastore_metrics_descs:
  "\<forall>m\<in>set (datastore_metrics d). desc m \<in> {available, size_desc, used} \<and> well_formed m"
  by (simp add: datastore_metrics_def desc_MustNewConstMetric well_formed_simps)

lemma getNamespaceMetric_shape:
  assumes run: "getNamespaceMetric env e d n w = (r, w')"
  shows "\<exists>rs ms. w' = w\<lparr>sent := sent w @ rs, ch := ch w @ ms\<rparr>
           \<and> prefix rs [api_request e (snapshots_url e d n)]
           \<and> (r = None \<longrightarrow> rs = [api_request e (snapshots_url e d n)])
           \<and> (\<forall>m\<in>set ms. desc m \<in> {snapshot_count, snapshot_vm_count} \<and> well_formed m)"
proof (cases "fst (apiGet env e ''ERROR: ----'' (snapshots_url e d n) w)")
  case (Inl err)
  with run have "r = Some err"
    "w' = w\<lparr>sent := sent w @ (if NewRequest_error env (snapshots_url e d n) = None
                                 then [api_request e (snapshots_url e d n)] else [])\<rparr>"
    by (simp_all add: getNamespaceMetric_eq)
  then show ?thesis
    by (intro exI[of _ "if NewRequest_error env (snapshots_url e d n) = None
                         then [api_request e (snapshots_url e d n)] else []"] exI[of _ "[]::Metric list"]) simp
next
  case body: (Inr body)
  show ?thesis
  proof (cases "Unmarshal_SnapshotResponse env body")
    case (Inl msg)
    with run body have "r = Some (UnmarshalError msg)"
      "w' = w\<lparr>sent := sent w @ [api_request e (snapshots_url e d n)]\<rparr>"
      by (simp_all add: getNamespaceMetric_eq)
    then show ?thesis
      by (intro exI[of _ "[api_request e (snapshots_url e d n)]"] exI[of _ "[]::Metric list"]) simp
  next
    case (Inr data)
    with run body have "r = None"
      "w' = w\<lparr>sent := sent w @ [api_request e (snapshots_url e d n)],
              ch := ch w @ namespace_metrics env n data\<rparr>"
      by (simp_all add: getNamespaceMetric_eq)
    then show ?thesis
      using namespace_metrics_descs [of env n data]
      by (intro exI[of _ "[api_request e (snapshots_url e d n)]"] exI[of _ "namespace_metrics env n data"]) simp
  qed
qed

lemma namespaces_loop_shape:
  assumes run: "namespaces_loop env e store data w = (r, w')"
  shows "\<exists>rs ms. w' = w\<lparr>sent := sent w @ rs, ch := ch w @ ms\<rparr>
           \<and> prefix rs (map (\<lambda>n. api_request e (snapshots_url e store n)) (filter (\<lambda>n. n \<noteq> []) (map Namespace data)))
           \<and> (r = None \<longrightarrow> rs = map (\<lambda>n. api_request e (snapshots_url e store n)) (filter (\<lambda>n. n \<noteq> []) (map Namespace data)))
           \<and> (\<forall>m\<in>set ms. desc m \<in> {snapshot_count, snapshot_vm_count} \<and> well_formed m)"
proof -
  let ?names = "filter (\<lambda>n. n \<noteq> []) (map Namespace data)"
  let ?C = "\<lambda>n c. c = [api_request e (snapshots_url e store n)]"
  have run': "for_each_until_error (getNamespaceMetric env e store) ?names w = (r, w')"
    using run by (simp add: namespaces_loop_for_each)
  have step: "\<exists>c rs ms. ?C x c \<and> v' = v\<lparr>sent := sent v @ rs, ch := ch v @ ms\<rparr>
               \<and> prefix rs c \<and> (q = None \<longrightarrow> rs = c)
               \<and> (\<forall>m\<in>set ms. desc m \<in> {snapshot_count, snapshot_vm_count} \<and> well_formed m)"
    if "getNamespaceMetric env e store x v = (q, v')" for x v q v'
    using getNamespaceMetric_shape [OF that] by blast
  from for_each_shape [where C = ?C, OF step _ run']
  obtain cs rs ms where cs: "list_all2 ?C ?names cs"
    and rest: "w' = w\<lparr>sent := sent w @ rs, ch := ch w @ ms\<rparr>" "prefix rs (concat cs)"
      "r = None \<longrightarrow> rs = concat cs"
      "\<forall>m\<in>set ms. desc m \<in> {snapshot_count, snapshot_vm_count} \<and> well_formed m"
    by blast
  have "concat cs = map (\<lambda>n. api_request e (snapshots_url e store n)) names" if "list_all2 ?C names cs" for names
    using that by (induction names cs rule: list_all2_induct) simp_all
  with cs have "concat cs = map (\<lambda>n. api_request e (snapshots_url e store n)) ?names" by blast
  with rest show ?thesis by auto
qed

lemma getDatastoreMetric_shape:
  assumes run: "getDatastoreMetric env e d w = (r, w')"
  shows "\<exists>ns rs ms. w' = w\<lparr>sent := sent w @ rs, ch := ch w @ ms\<rparr>
           \<and> prefix rs (datastore_calls e (d, ns))
           \<and> (r = None \<longrightarrow> rs = datastore_calls e (d, ns))
           \<and> (\<forall>m\<in>set ms. desc m \<in> {available, size_desc, used, snapshot_count, snapshot_vm_count}
                  \<and> well_formed m)"
proof (cases "fst (apiGet env e ''ERROR: --'' (namespace_url e (Store d)) w)")
  case (Inl err)
  let ?rs = "if NewRequest_error env (namespace_url e (Store d)) = None
             then [api_request e (namespace_url e (Store d))] else []"
  from run Inl have "r = Some err" "w' = w\<lparr>sent := sent w @ ?rs, ch := ch w @ datastore_metrics d\<rparr>"
    by (simp_all add: getDatastoreMetric_eq)
  then show ?thesis
    using datastore_metrics_descs [of d]
    by (intro exI[of _ "[]"] exI[of _ ?rs] exI[of _ "datastore_metrics d"])
      (auto simp add: datastore_calls_def)
next
  case body: (Inr body)
  show ?thesis
  proof (cases "Unmarshal_NamespaceResponse env body")
    case (Inl msg)
    with run body have "r = Some (UnmarshalError msg)"
      "w' = w\<lparr>sent := sent w @ [api_request e (namespace_url e (Store d))], ch := ch w @ datastore_metrics d\<rparr>"
      by (simp_all add: getDatastoreMetric_eq)
    then show ?thesis
      using datastore_metrics_descs [of d]
      by (intro exI[of _ "[]"] exI[of _ "[api_request e (namespace_url e (Store d))]"] exI[of _ "datastore_metrics d"])
        (auto simp add: datastore_calls_def)
  next
    case (Inr data)
    let ?w1 = "w\<lparr>sent := sent w @ [api_request e (namespace_url e (Store d))], ch := ch w @ datastore_metrics d\<rparr>"
    from run body Inr have "namespaces_loop env e (Store d) data ?w1 = (r, w')"
      by (simp add: getDatastoreMetric_eq)
    from namespaces_loop_shape [OF this] obtain rs ms where
      w': "w' = ?w1\<lparr>sent := sent ?w1 @ rs, ch := ch ?w1 @ ms\<rparr>"
      and rs: "prefix rs (map (\<lambda>n. api_request e (snapshots_url e (Store d) n)) (filter (\<lambda>n. n \<noteq> []) (map Namespace data)))"
        "r = None \<longrightarrow> rs = map (\<lambda>n. api_request e (snapshots_url e (Store d) n)) (filter (\<lambda>n. n \<noteq> []) (map Namespace data))"
      and ms: "\<forall>m\<in>set ms. desc m \<in> {snapshot_count, snapshot_vm_count} \<and> well_formed m"
      by blast
    have "w' = w\<lparr>sent := sent w @ (api_request e (namespace_url e (Store d)) # rs),
                   ch := ch w @ (datastore_metrics d @ ms)\<rparr>"
      using w' by simp
    moreover have "prefix (api_request e (namespace_url e (Store d)) # rs) (datastore_calls e (d, map Namespace data))"
      using rs(1) by (simp add: datastore_calls_def)
    moreover have "r = None \<longrightarrow> api_request e (namespace_url e (Store d)) # rs = datastore_calls e (d, map Namespace data)"
      using rs(2) by (simp add: datastore_calls_def)
    moreover have "\<forall>m\<in>set (datastore_metrics d @ ms).
        desc m \<in> {available, size_desc, used, snapshot_count, snapshot_vm_count} \<and> well_formed m"
      using ms datastore_metrics_descs [of d] by auto
    ultimately show ?thesis
      by (intro exI[of _ "map Namespace data"] exI[of _ "api_request e (namespace_url e (Store d)) # rs"]
          exI[of _ "datastore_metrics d @ ms"]) blast
  qed
qed

lemma datastores_loop_shape:
  assumes run: "datastores_loop env e dss w = (r, w')"
  shows "\<exists>nss rs ms. length nss = length dss
           \<and> w' = w\<lparr>sent := sent w @ rs, ch := ch w @ ms\<rparr>
           \<and> prefix rs (concat (map (datastore_calls e) (zip dss nss)))
           \<and> (r = None \<longrightarrow> rs = concat (map (datastore_calls e) (zip dss nss)))
           \<and> (\<forall>m\<in>set ms. desc m \<in> {available, size_desc, used, snapshot_count, snapshot_vm_count}
                  \<and> well_formed m)"
proof -
  let ?C = "\<lambda>d c. \<exists>ns. c = datastore_calls e (d, ns)"
  have run': "for_each_until_error (getDatastoreMetric env e) dss w = (r, w')"
    using run by (simp add: datastores_loop_for_each)
  have step: "\<exists>c rs ms. ?C x c \<and> v' = v\<lparr>sent := sent v @ rs, ch := ch v @ ms\<rparr>
               \<and> prefix rs c \<and> (q = None \<longrightarrow> rs = c)
               \<and> (\<forall>m\<in>set ms. desc m \<in> {available, size_desc, used, snapshot_count, snapshot_vm_count}
                      \<and> well_formed m)"
    if "getDatastoreMetric env e x v = (q, v')" for x v q v'
    using getDatastoreMetric_shape [OF that] by blast
  have total: "\<exists>c. ?C x c" for x by blast
  from for_each_shape [where C = ?C, OF step total run']
  obtain cs rs ms where cs: "list_all2 ?C dss cs"
    and rest: "w' = w\<lparr>sent := sent w @ rs, ch := ch w @ ms\<rparr>" "prefix rs (concat cs)"
      "r = None \<longrightarrow> rs = concat cs"
      "\<forall>m\<in>set ms. desc m \<in> {available, size_desc, used, snapshot_count, snapshot_vm_count} \<and> well_formed m"
    by blast
  have "\<exists>nss. length nss = length ds \<and> concat cs = concat (map (datastore_calls e) (zip ds nss))"
    if "list_all2 ?C ds cs" for ds
    using that
  proof (induction ds cs rule: list_all2_induct)
    case Nil
    then show ?case by simp
  next
    case (Cons d ds c cs)
    from Cons.hyps obtain ns where c: "c = datastore_calls e (d, ns)" by blast
    from Cons.IH obtain nss where "length nss = length ds"
      "concat cs = concat (map (datastore_calls e) (zip ds nss))" by blast
    with c show ?case by (intro exI[of _ "ns # nss"]) simp
  qed
  with cs obtain nss where "length nss = length dss"
    "concat cs = concat (map (datastore_calls e) (zip dss nss))" by blast
  with rest show ?thesis by (intro exI[of _ nss] exI[of _ rs] exI[of _ ms]) simp
qed

lemma collected_not_up:
  assumes "d \<in> {available, size_desc, used, snapshot_count, snapshot_vm_count}"
  shows "d \<noteq> up"
proof
  assume "d = up"
  then have "fqName d = ''pbs_up''" by (simp add: fqName_simps)
  with assms show False by (auto simp add: fqName_simps)
qed

lemma host_metrics_descs:
  "\<forall>m\<in>set (host_metrics d). well_formed m \<and> desc m \<noteq> up"
proof -
  have "fqName (desc m) \<noteq> ''pbs_up''" if "m \<in> set (host_metrics d)" for m
    using that by (auto simp add: host_metrics_def desc_MustNewConstMetric fqName_simps)
  moreover have "well_formed m" if "m \<in> set (host_metrics d)" for m
    using that by (auto simp add: host_metrics_def well_formed_def MustNewConstMetric_def desc_defs NewDesc_def)
  ultimately show ?thesis by (metis fqName_simps(1))
qed

lemma getNodeMetrics_shape:
  assumes run: "getNodeMetrics env e w = (r, w')"
  shows "\<exists>rs ms. w' = w\<lparr>sent := sent w @ rs, ch := ch w @ ms\<rparr>
           \<and> prefix rs [api_request e (node_url e)]
           \<and> (r = None \<longrightarrow> rs = [api_request e (node_url e)])
           \<and> (r \<noteq> None \<longrightarrow> ms = [])
           \<and> (\<forall>m\<in>set ms. well_formed m \<and> desc m \<noteq> up)"
proof (cases "fst (apiGet env e ''ERROR: '' (node_url e) w)")
  case (Inl err)
  let ?rs = "if NewRequest_error env (node_url e) = None then [api_request e (node_url e)] else []"
  from run Inl have "r = Some err" "w' = w\<lparr>sent := sent w @ ?rs\<rparr>"
    by (simp_all add: getNodeMetrics_eq)
  then show ?thesis
    by (intro exI[of _ ?rs] exI[of _ "[]::Metric list"]) simp
next
  case body: (Inr body)
  show ?thesis
  proof (cases "Unmarshal_HostResponse env body")
    case (Inl msg)
    with run body have "r = Some (UnmarshalError msg)" "w' = w\<lparr>sent := sent w @ [api_request e (node_url e)]\<rparr>"
      by (simp_all add: getNodeMetrics_eq)
    then show ?thesis
      by (intro exI[of _ "[api_request e (node_url e)]"] exI[of _ "[]::Metric list"]) simp
  next
    case (Inr d)
    with run body have "r = None"
      "w' = w\<lparr>sent := sent w @ [api_request e (node_url e)], ch := ch w @ host_metrics d\<rparr>"
      by (simp_all add: getNodeMetrics_eq)
    then show ?thesis
      using host_metrics_descs [of d]
      by (intro exI[of _ "[api_request e (node_url e)]"] exI[of _ "host_metrics d"]) simp
  qed
qed

lemma collectFromAPI_shape:
  assumes run: "collectFromAPI env e w = (r, w')"
  shows "\<exists>dss nss rs ms. length nss = length dss
           \<and> w' = w\<lparr>sent := sent w @ rs, ch := ch w @ ms\<rparr>
           \<and> prefix rs (scrape_calls e dss nss)
           \<and> (r = None \<longrightarrow> rs = scrape_calls e dss nss
                 \<and> (\<exists>resp body. answers env e w (usage_url e) resp \<and> StatusCode resp = 200
                        \<and> Body resp = Inr body \<and> Unmarshal_DatastoreResponse env body = Inr dss))
           \<and> (r \<noteq> None \<longrightarrow>
                 (\<forall>m\<in>set ms. desc m \<in> {available, size_desc, used, snapshot_count, snapshot_vm_count}))
           \<and> (\<forall>m\<in>set ms. well_formed m \<and> desc m \<noteq> up)
           \<and> (\<forall>b ds. fst (apiGet env e ''ERROR: '' (usage_url e) w) = Inr b
                  \<and> Unmarshal_DatastoreResponse env b = Inr ds \<longrightarrow> dss = ds)"
proof (cases "fst (apiGet env e ''ERROR: '' (usage_url e) w)")
  case (Inl err)
  let ?rs = "if NewRequest_error env (usage_url e) = None then [api_request e (usage_url e)] else []"
  from run Inl have "r = Some err" "w' = w\<lparr>sent := sent w @ ?rs\<rparr>"
    by (simp_all add: collectFromAPI_eq)
  with Inl show ?thesis
    by (intro exI[of _ "[]"] exI[of _ ?rs] exI[of _ "[]::Metric list"]) (simp add: scrape_calls_def)
next
  case body: (Inr body)
  show ?thesis
  proof (cases "Unmarshal_DatastoreResponse env body")
    case (Inl msg)
    with run body have "r = Some (UnmarshalError msg)" "w' = w\<lparr>sent := sent w @ [api_request e (usage_url e)]\<rparr>"
      by (simp_all add: collectFromAPI_eq)
    with body Inl show ?thesis
      by (intro exI[of _ "[]"] exI[of _ "[api_request e (usage_url e)]"] exI[of _ "[]::Metric list"])
        (simp add: scrape_calls_def)
  next
    case data: (Inr data)
    let ?w1 = "w\<lparr>sent := sent w @ [api_request e (usage_url e)]\<rparr>"
    obtain r2 w2 where loop: "datastores_loop env e data ?w1 = (r2, w2)"
      by (cases "datastores_loop env e data ?w1") blast
    from datastores_loop_shape [OF loop] obtain nss rs2 ms2 where nss: "length nss = length data"
      and w2: "w2 = ?w1\<lparr>sent := sent ?w1 @ rs2, ch := ch ?w1 @ ms2\<rparr>"
      and rs2: "prefix rs2 (concat (map (datastore_calls e) (zip data nss)))"
        "r2 = None \<longrightarrow> rs2 = concat (map (datastore_calls e) (zip data nss))"
      and ms2: "\<forall>m\<in>set ms2. desc m \<in> {available, size_desc, used, snapshot_count, snapshot_vm_count} \<and> well_formed m"
      by blast
    have w2': "w2 = w\<lparr>sent := sent w @ (api_request e (usage_url e) # rs2), ch := ch w @ ms2\<rparr>"
      using w2 by simp
    have ms2': "\<forall>m\<in>set ms2. well_formed m \<and> desc m \<noteq> up"
      using ms2 collected_not_up by blast
    have listed: "\<forall>b ds. fst (apiGet env e ''ERROR: '' (usage_url e) w) = Inr b
        \<and> Unmarshal_DatastoreResponse env b = Inr ds \<longrightarrow> data = ds"
      using body data by simp
    show ?thesis
    proof (cases r2)
      case (Some err)
      with run body data loop have res: "r = Some err" "w' = w2"
        by (simp_all add: collectFromAPI_eq)
      have "prefix (api_request e (usage_url e) # rs2) (scrape_calls e data nss)"
        using rs2(1) by (simp add: scrape_calls_def prefix_def) auto
      with res nss w2' ms2 ms2' listed show ?thesis
        by (intro exI[of _ data] exI[of _ nss] exI[of _ "api_request e (usage_url e) # rs2"] exI[of _ ms2]) simp
    next
      case None
      with run body data loop have node: "getNodeMetrics env e w2 = (r, w')"
        by (simp add: collectFromAPI_eq)
      from getNodeMetrics_shape [OF node] obtain rs3 ms3 where
        w': "w' = w2\<lparr>sent := sent w2 @ rs3, ch := ch w2 @ ms3\<rparr>"
        and rs3: "prefix rs3 [api_request e (node_url e)]" "r = None \<longrightarrow> rs3 = [api_request e (node_url e)]"
        and ms3: "r \<noteq> None \<longrightarrow> ms3 = []" "\<forall>m\<in>set ms3. well_formed m \<and> desc m \<noteq> up"
        by blast
      from None rs2 have rs2_eq: "rs2 = concat (map (datastore_calls e) (zip data nss))" by simp
      have "w' = w\<lparr>sent := sent w @ (api_request e (usage_url e) # rs2 @ rs3), ch := ch w @ (ms2 @ ms3)\<rparr>"
        using w' w2' by simp
      moreover have "prefix (api_request e (usage_url e) # rs2 @ rs3) (scrape_calls e data nss)"
        using rs3(1) unfolding scrape_calls_def rs2_eq by (simp only: prefix_code same_prefix_prefix simp_thms)
      moreover have "r = None \<longrightarrow> api_request e (usage_url e) # rs2 @ rs3 = scrape_calls e data nss"
        using rs3(2) by (simp add: scrape_calls_def rs2_eq)
      moreover have "\<exists>resp body. answers env e w (usage_url e) resp \<and> StatusCode resp = 200
                        \<and> Body resp = Inr body \<and> Unmarshal_DatastoreResponse env body = Inr data"
        using apiGet_fst_Inr_answers [OF body] data by blast
      moreover have "r \<noteq> None \<longrightarrow>
          (\<forall>m\<in>set (ms2 @ ms3). desc m \<in> {available, size_desc, used, snapshot_count, snapshot_vm_count})"
        using ms2 ms3(1) by simp
      moreover have "\<forall>m\<in>set (ms2 @ ms3). well_formed m \<and> desc m \<noteq> up"
        using ms2' ms3(2) by auto
      ultimately show ?thesis
        using nss listed
        by (intro exI[of _ data] exI[of _ nss] exI[of _ "api_request e (usage_url e) # rs2 @ rs3"]
            exI[of _ "ms2 @ ms3"]) blast
    qed
  qed
qed

lemma scrape_calls_requests:
  assumes "r \<in> set (scrape_calls e dss nss)"
  shows "\<exists>url. r = api_request e url"
  using assms by (auto simp add: scrape_calls_def datastore_calls_def)

text \<open>
  Every sample a scrape writes is a gauge with as many label values as its descriptor
  has variable labels: \<^verbatim>\<open>MustNewConstMetric\<close> does not panic.
\<close>

lemma emitted_labels_match:
  "\<exists>ms. ch (Collect env e w) = ch w @ ms
     \<and> (\<forall>m\<in>set ms. valType m = GaugeValue \<and> length (labelValues m) = length (variableLabels (desc m)))"
proof -
  obtain r w' where run: "collectFromAPI env e w = (r, w')"
    by (cases "collectFromAPI env e w") blast
  from collectFromAPI_shape [OF run] obtain rs ms where
    w': "w' = w\<lparr>sent := sent w @ rs, ch := ch w @ ms\<rparr>"
    and ms: "\<forall>m\<in>set ms. well_formed m \<and> desc m \<noteq> up"
    by blast
  have "ch (Collect env e w) = ch w @ ms @ [up_metric (case r of None \<Rightarrow> 1 | Some err \<Rightarrow> 0)]"
    using run w' by (simp add: Collect_eq split: option.splits)
  moreover have "\<forall>m\<in>set (ms @ [up_metric (case r of None \<Rightarrow> 1 | Some err \<Rightarrow> 0)]). well_formed m"
    using ms by (simp add: up_metric_def well_formed_simps)
  ultimately show ?thesis
    unfolding well_formed_def by blast
qed

section \<open>The example server, evaluated\<close>

lemmas url_defs = usage_url_def namespace_url_def snapshots_url_def node_url_def
  datastoreUsageApi_def datastoreApi_def nodeApi_def

lemma ex_fst_apiGet:
  "fst (apiGet (ex_env routes) e pfx url w) =
     (case map_of routes url of
        None \<Rightarrow> Inl (DoError ''connection refused'')
      | Some resp \<Rightarrow>
          (case Body resp of
             Inl msg \<Rightarrow> Inl (ReadAllError msg)
           | Inr body \<Rightarrow> if StatusCode resp \<noteq> 200 then Inl (StatusError pfx (StatusCode resp) (endpoint e))
                         else Inr body))"
  by (simp add: apiGet_def NewRequest_def Header_Set_def ex_env_def Let_def split: option.splits sum.splits)

lemma ex_env_simps:
  "NewRequest_error (ex_env routes) url = None"
  "Unmarshal_DatastoreResponse (ex_env routes) ''D'' = Inr [ex_datastore]"
  "Unmarshal_NamespaceResponse (ex_env routes) ''N'' = Inr [\<lparr>Namespace = []\<rparr>, \<lparr>Namespace = ''n1''\<rparr>]"
  "Unmarshal_NamespaceResponse (ex_env routes) ''M'' = Inr [\<lparr>Namespace = ''n1''\<rparr>, \<lparr>Namespace = ''n2''\<rparr>]"
  "Unmarshal_SnapshotResponse (ex_env routes) ''S'' = Inr ex_snapshots"
  "Unmarshal_SnapshotResponse (ex_env routes) ''E'' = Inr []"
  "Unmarshal_HostResponse (ex_env routes) ''H'' = Inr ex_host"
  "map_range (ex_env routes) = rev"
  by (simp_all add: ex_env_def)

lemma ex_urls:
  "usage_url ex_exporter = ''h/api2/json/status/datastore-usage''"
  "namespace_url ex_exporter ''ds1'' = ''h/api2/json/admin/datastore/ds1/namespace''"
  "snapshots_url ex_exporter ''ds1'' ''n1'' = ''h/api2/json/admin/datastore/ds1/snapshots?ns=n1''"
  "node_url ex_exporter = ''h/api2/json/nodes/localhost/status''"
  "endpoint ex_exporter = ''h''"
  "Store ex_datastore = ''ds1''"
  by (simp_all add: url_defs ex_exporter_def NewExporter_def ex_datastore_def)

lemma ex_answers:
  assumes "map_of routes url = Some resp"
  shows "answers (ex_env routes) e w url resp"
  using assms by (simp add: answers_def ex_env_def api_request_def)

lemma ex_range: "mset (map_range (ex_env routes) m) = mset m"
  by (simp add: ex_env_simps)

lemma ex_snapshot_answers:
  "answers (ex_env healthy) ex_exporter idle (snapshots_url ex_exporter ''ds1'' ''n1'') (ok200 ''S'')"
  "answers (ex_env empty_namespace) ex_exporter idle (snapshots_url ex_exporter ''ds1'' ''n1'') (ok200 ''E'')"
  by (rule ex_answers, simp add: healthy_def empty_namespace_def ex_urls)+

lemma healthy_run:
  "collectFromAPI (ex_env healthy) ex_exporter idle =
     (None, \<lparr>sent = scrape_calls ex_exporter [ex_datastore] [[[], ''n1'']],
             ch = datastore_metrics ex_datastore @ namespace_metrics (ex_env healthy) ''n1'' ex_snapshots
                    @ host_metrics ex_host,
             logged = []\<rparr>)"
  by (simp add: collectFromAPI_eq getDatastoreMetric_eq getNamespaceMetric_eq getNodeMetrics_eq
      ex_fst_apiGet ex_env_simps ex_urls healthy_def ok200_def idle_def scrape_calls_def datastore_calls_def)


lemma usage_listing_fails_run:
  "collectFromAPI (ex_env usage_listing_fails) ex_exporter idle =
     (Some (StatusError ''ERROR: '' 500 ''h''),
      \<lparr>sent = [api_request ex_exporter ''h/api2/json/status/datastore-usage''], ch = [], logged = []\<rparr>)"
  by (simp add: collectFromAPI_eq ex_fst_apiGet ex_env_simps ex_urls usage_listing_fails_def ok200_def status500_def idle_def)

lemma map_const_replicate:
  assumes "\<forall>x\<in>set xs. f x = c"
  shows "map f xs = replicate (length xs) c"
  using assms by (induction xs) simp_all

section \<open>Counting the snapshots\<close>

lemma count_snapshots_fold:
  "count_snapshots data = fold vmCount_incr (map BackupID data) []"
  by (simp add: count_snapshots_def fold_map comp_def)

lemma map_of_vmCount_incr:
  "map_of (vmCount_incr k m) = (map_of m)(k \<mapsto> (case map_of m k of None \<Rightarrow> 0 | Some c \<Rightarrow> c) + 1)"
  by (simp add: vmCount_incr_def update_conv')

lemma distinct_vmCount_incr:
  "distinct (map fst m) \<Longrightarrow> distinct (map fst (vmCount_incr k m))"
  by (simp add: vmCount_incr_def distinct_update)

lemma sum_update:
  "sum_list (map snd (AList.update k v m)) =
     sum_list (map snd m) - (case map_of m k of None \<Rightarrow> 0 | Some c \<Rightarrow> c) + (v::int)"
  by (induction m) auto

lemma sum_vmCount_incr:
  "sum_list (map snd (vmCount_incr k m)) = sum_list (map snd m) + 1"
  by (simp add: vmCount_incr_def sum_update)

lemma fold_vmCount_incr_distinct:
  "distinct (map fst m) \<Longrightarrow> distinct (map fst (fold vmCount_incr ids m))"
  by (induction ids arbitrary: m) (simp_all add: distinct_vmCount_incr)

lemma fold_vmCount_incr_sum:
  "sum_list (map snd (fold vmCount_incr ids m)) = sum_list (map snd m) + int (length ids)"
  by (induction ids arbitrary: m) (simp_all add: sum_vmCount_incr)

lemma fold_vmCount_incr_map_of:
  "map_of (fold vmCount_incr ids m) k =
     (if k \<in> set ids
      then Some ((case map_of m k of None \<Rightarrow> 0 | Some c \<Rightarrow> c) + int (count_list ids k))
      else map_of m k)"
  by (induction ids arbitrary: m) (auto simp add: map_of_vmCount_incr)

lemma count_snapshots_distinct: "distinct (map fst (count_snapshots data))"
  by (simp add: count_snapshots_fold fold_vmCount_incr_distinct)

lemma count_snapshots_sum: "sum_list (map snd (count_snapshots data)) = int (length data)"
  by (simp add: count_snapshots_fold fold_vmCount_incr_sum)

lemma count_snapshots_map_of:
  "map_of (count_snapshots data) k =
     (if k \<in> set (map BackupID data) then Some (int (count_list (map BackupID data) k)) else None)"
  by (simp add: count_snapshots_fold fold_vmCount_incr_map_of)

lemma count_snapshots_keys: "set (map fst (count_snapshots data)) = set (map BackupID data)"
proof -
  have "dom (map_of (count_snapshots data)) = set (map BackupID data)"
    by (auto simp add: count_snapshots_map_of dom_def)
  then show ?thesis
    by (simp add: dom_map_of_conv_image_fst)
qed

lemma mset_distinct_alist:
  assumes "distinct (map fst al)"
  shows "mset al = image_mset (\<lambda>k. (k, the (map_of al k))) (mset (map fst al))"
  using assms
proof (induction al)
  case Nil
  then show ?case by simp
next
  case (Cons p al)
  have "image_mset (\<lambda>k. (k, the (map_of (p # al) k))) (mset (map fst al))
      = image_mset (\<lambda>k. (k, the (map_of al k))) (mset (map fst al))"
    using Cons.prems by (intro image_mset_cong) (force simp add: image_iff)
  with Cons show ?case by (cases p) simp
qed

lemma count_snapshots_mset:
  "mset (count_snapshots data) =
     image_mset (\<lambda>k. (k, int (count (mset (map BackupID data)) k))) (mset_set (set (map BackupID data)))"
proof -
  let ?al = "count_snapshots data"
  let ?ids = "map BackupID data"
  have keys: "mset (map fst ?al) = mset_set (set ?ids)"
    using count_snapshots_distinct [of data] count_snapshots_keys [of data]
    by (metis mset_set_set)
  have "mset ?al = image_mset (\<lambda>k. (k, the (map_of ?al k))) (mset (map fst ?al))"
    by (rule mset_distinct_alist) (rule count_snapshots_distinct)
  also have "\<dots> = image_mset (\<lambda>k. (k, the (map_of ?al k))) (mset_set (set ?ids))"
    by (simp only: keys)
  also have "\<dots> = image_mset (\<lambda>k. (k, int (count (mset ?ids) k))) (mset_set (set ?ids))"
  proof (intro image_mset_cong)
    fix k assume "k \<in># mset_set (set ?ids)"
    then have "k \<in> set ?ids" by simp
    then have "the (map_of ?al k) = int (count_list ?ids k)"
      by (simp only: count_snapshots_map_of if_True option.sel)
    then show "(k, the (map_of ?al k)) = (k, int (count (mset ?ids) k))"
      by (simp only: count_mset)
  qed
  finally show ?thesis .
qed

lemma range_vm_metrics:
  assumes range: "mset (map_range env (count_snapshots data)) = mset (count_snapshots data)"
  shows "mset (map (snapshot_vm_metric namespace) (map_range env (count_snapshots data))) =
           image_mset (\<lambda>k. snapshot_vm_metric namespace (k, int (count (mset (map BackupID data)) k)))
             (mset_set (set (map BackupID data)))"
proof -
  have "mset (map (snapshot_vm_metric namespace) (map_range env (count_snapshots data)))
      = image_mset (snapshot_vm_metric namespace) (mset (count_snapshots data))"
    by (simp only: mset_map range)
  also have "\<dots> = image_mset (\<lambda>k. snapshot_vm_metric namespace (k, int (count (mset (map BackupID data)) k)))
             (mset_set (set (map BackupID data)))"
    by (simp only: count_snapshots_mset multiset.map_comp comp_def)
  finally show ?thesis .
qed

section \<open>The scrape and its trace\<close>

subsection \<open>Fetches\<close>

lemma fetch_apiGet:
  "fetch env e (sent w) url = (case fst (apiGet env e pfx url w) of Inl err \<Rightarrow> None | Inr body \<Rightarrow> Some body)"
  by (simp add: fetch_def apiGet_def NewRequest_def Header_Set_def api_request_def Let_def
      split: option.splits sum.splits)

lemma fetch_Some_requested:
  assumes "fetch env e hist url = Some body"
  shows "requested env e url = [api_request e url]"
  using assms by (simp add: fetch_def requested_def split: option.splits)

lemma apiGet_Inl_fetch:
  assumes "fst (apiGet env e pfx url w) = Inl err"
  shows "fetch env e (sent w) url = None"
  using assms by (simp add: fetch_apiGet [of env e w url pfx])

lemma apiGet_Inr_fetch:
  assumes "fst (apiGet env e pfx url w) = Inr body"
  shows "fetch env e (sent w) url = Some body"
  using assms by (simp add: fetch_apiGet [of env e w url pfx])

subsection \<open>Views of the samples\<close>

lemma view_MustNewConstMetric:
  "view (MustNewConstMetric d t v ls) = (fqName d, t, ls, v)"
  by (simp add: view_def MustNewConstMetric_def)

lemma view_datastore_metrics:
  "map view (datastore_metrics d) =
     [(''pbs_available'', GaugeValue, [], Float64_of_int64 (Avail d)),
      (''pbs_size'', GaugeValue, [], Float64_of_int64 (Total d)),
      (''pbs_used'', GaugeValue, [], Float64_of_int64 (Used d))]"
  by (simp add: datastore_metrics_def view_MustNewConstMetric fqName_simps)

lemma view_host_metrics: "writes (HostSamples h) (map view (host_metrics h))"
  by (simp add: host_metrics_def view_MustNewConstMetric fqName_simps)

lemma view_snapshot_vm_metric:
  "view (snapshot_vm_metric namespace (k, c)) = (''pbs_snapshot_vm_count'', GaugeValue, [namespace, k], Float64_of_int c)"
  by (simp add: snapshot_vm_metric_def view_MustNewConstMetric fqName_simps)


lemma mset_set_remdups: "mset_set (set xs) = mset (remdups xs)"
  by (metis distinct_remdups mset_set_set set_remdups)

lemma view_vm_metrics:
  assumes range: "mset (map_range env (count_snapshots data)) = mset (count_snapshots data)"
  shows "mset (map view (map (snapshot_vm_metric namespace) (map_range env (count_snapshots data)))) =
           mset (map (\<lambda>k. (''pbs_snapshot_vm_count'', GaugeValue, [namespace, k],
                            Float64_of_int (int (count_list (map BackupID data) k))))
                  (remdups (map BackupID data)))"
proof -
  let ?ids = "map BackupID data"
  have "mset (map view (map (snapshot_vm_metric namespace) (map_range env (count_snapshots data))))
      = image_mset (\<lambda>kv. view (snapshot_vm_metric namespace kv)) (mset (count_snapshots data))"
    by (simp only: mset_map range multiset.map_comp comp_def)
  also have "\<dots> = image_mset (\<lambda>k. view (snapshot_vm_metric namespace (k, int (count (mset ?ids) k))))
                     (mset_set (set ?ids))"
    by (simp only: count_snapshots_mset multiset.map_comp comp_def)
  also have "\<dots> = image_mset (\<lambda>k. (''pbs_snapshot_vm_count'', GaugeValue, [namespace, k],
                                     Float64_of_int (int (count_list ?ids k))))
                     (mset (remdups ?ids))"
    by (simp only: view_snapshot_vm_metric count_mset mset_set_remdups)
  finally show ?thesis by (simp only: mset_map)
qed

lemma view_namespace_metrics:
  assumes range: "mset (map_range env (count_snapshots data)) = mset (count_snapshots data)"
  shows "writes (Counts namespace (map BackupID data)) (map view (namespace_metrics env namespace data))"
  using view_vm_metrics [OF range, of namespace]
  by (simp add: namespace_metrics_def snapshot_count_metric_def view_MustNewConstMetric fqName_simps)

subsection \<open>Runs that follow a trace\<close>

lemma requests_simps:
  "requests env e [] = []"
  "requests env e (ev # t) = event_requests env e ev @ requests env e t"
  "requests env e (t @ t') = requests env e t @ requests env e t'"
  by (simp_all add: requests_def)

lemma failed_simps:
  "failed [] = False"
  "failed (ev # t) = (is_failed ev \<or> failed t)"
  "failed (t @ t') = (failed t \<or> failed t')"
  by (simp_all add: failed_def)

lemma followsI:
  assumes "fst res = None \<longleftrightarrow> \<not> failed t"
    and "snd res = w\<lparr>sent := sent w @ requests env e t, ch := ch w @ ms\<rparr>"
    and "visits_once env \<Longrightarrow> list_all2 writes t vss" and "map view ms = concat vss"
  shows "follows env e w res t"
  using assms unfolding follows_def by blast

lemma follows_Nil: "follows env e w (None, w) []"
  by (rule followsI [where ms = "[]" and vss = "[]"]) (simp_all add: requests_simps failed_simps)

lemma follows_append:
  assumes first: "follows env e w (None, w1) t1" and rest: "follows env e w1 res t2"
  shows "follows env e w res (t1 @ t2)"
proof -
  from first obtain ms1 vss1 where ok1: "\<not> failed t1"
    and w1: "w1 = w\<lparr>sent := sent w @ requests env e t1, ch := ch w @ ms1\<rparr>"
    and vs1: "visits_once env \<longrightarrow> list_all2 writes t1 vss1" "map view ms1 = concat vss1"
    unfolding follows_def by auto
  from rest obtain ms2 vss2 where r2: "fst res = None \<longleftrightarrow> \<not> failed t2"
    and w2: "snd res = w1\<lparr>sent := sent w1 @ requests env e t2, ch := ch w1 @ ms2\<rparr>"
    and vs2: "visits_once env \<longrightarrow> list_all2 writes t2 vss2" "map view ms2 = concat vss2"
    unfolding follows_def by auto
  show ?thesis
  proof (rule followsI [where ms = "ms1 @ ms2" and vss = "vss1 @ vss2"])
    show "fst res = None \<longleftrightarrow> \<not> failed (t1 @ t2)"
      using ok1 r2 by (simp add: failed_simps)
    show "snd res = w\<lparr>sent := sent w @ requests env e (t1 @ t2), ch := ch w @ ms1 @ ms2\<rparr>"
      using w1 w2 by (simp add: requests_simps)
    show "list_all2 writes (t1 @ t2) (vss1 @ vss2)" if "visits_once env"
      using that vs1(1) vs2(1) by (simp add: list_all2_appendI)
    show "map view (ms1 @ ms2) = concat (vss1 @ vss2)"
      using vs1(2) vs2(2) by simp
  qed
qed

lemma follows_sent:
  assumes "follows env e w (r, w') t"
  shows "sent w' = sent w @ requests env e t"
  using assms unfolding follows_def by auto

lemma follows_result:
  assumes "follows env e w (r, w') t"
  shows "r = None \<longleftrightarrow> \<not> failed t"
  using assms unfolding follows_def by auto

subsection \<open>The collectors follow their traces\<close>

lemma getNamespaceMetric_follows:
  "follows env e w (getNamespaceMetric env e store n w)
     (case snapshot_listing env e (sent w) store n of
        None \<Rightarrow> [Call (snapshots_url e store n) False]
      | Some ids \<Rightarrow> [Call (snapshots_url e store n) True, Counts n ids])"
proof (cases "fst (apiGet env e ''ERROR: ----'' (snapshots_url e store n) w)")
  case (Inl err)
  then have none: "snapshot_listing env e (sent w) store n = None"
    by (simp add: snapshot_listing_def apiGet_Inl_fetch)
  show ?thesis
    unfolding none option.case
    by (rule followsI [where ms = "[]" and vss = "[[]]"])
      (simp_all add: getNamespaceMetric_eq Inl requests_simps failed_simps requested_def)
next
  case body: (Inr body)
  note url_ok = apiGet_fst_Inr [OF body]
  show ?thesis
  proof (cases "Unmarshal_SnapshotResponse env body")
    case (Inl msg)
    with body have none: "snapshot_listing env e (sent w) store n = None"
      by (simp add: snapshot_listing_def apiGet_Inr_fetch)
    show ?thesis
      unfolding none option.case
      by (rule followsI [where ms = "[]" and vss = "[[]]"])
        (simp_all add: getNamespaceMetric_eq body Inl requests_simps failed_simps requested_def url_ok)
  next
    case (Inr data)
    with body have some: "snapshot_listing env e (sent w) store n = Some (map BackupID data)"
      by (simp add: snapshot_listing_def apiGet_Inr_fetch)
    show ?thesis
      unfolding some option.case
    proof (rule followsI [where ms = "namespace_metrics env n data"
          and vss = "[[], map view (namespace_metrics env n data)]"])
      show "list_all2 writes [Call (snapshots_url e store n) True, Counts n (map BackupID data)]
              [[], map view (namespace_metrics env n data)]" if "visits_once env"
        using view_namespace_metrics [where env = env and data = data and namespace = n] that
        by (simp add: visits_once_def)
    qed (simp_all add: getNamespaceMetric_eq body Inr requests_simps failed_simps requested_def url_ok)
  qed
qed

lemma namespaces_loop_follows:
  "follows env e w (namespaces_loop env e store data w)
     (namespaces_trace env e store (map Namespace data) (sent w))"
proof (induction data arbitrary: w)
  case Nil
  show ?case by (simp add: follows_Nil)
next
  case (Cons entry data)
  show ?case
  proof (cases "Namespace entry = []")
    case True
    with Cons.IH [of w] show ?thesis by simp
  next
    case nonempty: False
    let ?n = "Namespace entry"
    obtain r w1 where run: "getNamespaceMetric env e store ?n w = (r, w1)"
      by (cases "getNamespaceMetric env e store ?n w") blast
    note first = getNamespaceMetric_follows [of env e w store ?n, unfolded run]
    show ?thesis
    proof (cases "snapshot_listing env e (sent w) store ?n")
      case None
      with first have f: "follows env e w (r, w1) [Call (snapshots_url e store ?n) False]" by simp
      from follows_result [OF f] obtain err where "r = Some err"
        by (cases r) (simp_all add: failed_simps)
      with f nonempty run None show ?thesis by simp
    next
      case (Some ids)
      with first have f: "follows env e w (r, w1) [Call (snapshots_url e store ?n) True, Counts ?n ids]"
        by simp
      from follows_result [OF f] have r: "r = None" by (simp add: failed_simps)
      have sent1: "sent w1 = sent w @ [api_request e (snapshots_url e store ?n)]"
        using follows_sent [OF f] Some
        by (simp add: requests_simps snapshot_listing_def fetch_Some_requested split: option.splits)
      have "follows env e w (namespaces_loop env e store data w1)
              ([Call (snapshots_url e store ?n) True, Counts ?n ids]
                 @ namespaces_trace env e store (map Namespace data) (sent w1))"
        using f [unfolded r] Cons.IH [of w1] by (rule follows_append)
      with nonempty run r Some sent1 show ?thesis by simp
    qed
  qed
qed

lemma follows_Cons_Gauges:
  assumes "follows env e (w\<lparr>ch := ch w @ datastore_metrics d\<rparr>) res t"
  shows "follows env e w res (Gauges d # t)"
proof -
  let ?w0 = "w\<lparr>ch := ch w @ datastore_metrics d\<rparr>"
  from assms obtain ms vss where r: "fst res = None \<longleftrightarrow> \<not> failed t"
    and w': "snd res = ?w0\<lparr>sent := sent ?w0 @ requests env e t, ch := ch ?w0 @ ms\<rparr>"
    and vs: "visits_once env \<longrightarrow> list_all2 writes t vss" "map view ms = concat vss"
    unfolding follows_def by auto
  show ?thesis
  proof (rule followsI [where ms = "datastore_metrics d @ ms" and vss = "map view (datastore_metrics d) # vss"])
    show "list_all2 writes (Gauges d # t) (map view (datastore_metrics d) # vss)" if "visits_once env"
      using that vs(1) by (simp add: view_datastore_metrics)
  qed (use r w' vs(2) in \<open>simp_all add: requests_simps failed_simps\<close>)
qed

lemma follows_Cons_Call:
  assumes "follows env e (w\<lparr>sent := sent w @ [api_request e url]\<rparr>) res t"
    and "requested env e url = [api_request e url]"
  shows "follows env e w res (Call url True # t)"
proof -
  let ?w0 = "w\<lparr>sent := sent w @ [api_request e url]\<rparr>"
  from assms(1) obtain ms vss where r: "fst res = None \<longleftrightarrow> \<not> failed t"
    and w': "snd res = ?w0\<lparr>sent := sent ?w0 @ requests env e t, ch := ch ?w0 @ ms\<rparr>"
    and vs: "visits_once env \<longrightarrow> list_all2 writes t vss" "map view ms = concat vss"
    unfolding follows_def by auto
  show ?thesis
  proof (rule followsI [where ms = ms and vss = "[] # vss"])
    show "list_all2 writes (Call url True # t) ([] # vss)" if "visits_once env"
      using that vs(1) by simp
  qed (use r w' vs(2) assms(2) in \<open>simp_all add: requests_simps failed_simps\<close>)
qed

lemma follows_failed_Call:
  assumes "fst res \<noteq> None" and "snd res = w\<lparr>sent := sent w @ requested env e url\<rparr>"
  shows "follows env e w res [Call url False]"
  by (rule followsI [where ms = "[]" and vss = "[[]]"])
    (use assms in \<open>simp_all add: requests_simps failed_simps\<close>)

lemma getDatastoreMetric_follows:
  "follows env e w (getDatastoreMetric env e d w) (datastore_trace env e d (sent w))"
proof -
  let ?url = "namespace_url e (Store d)"
  let ?w0 = "w\<lparr>ch := ch w @ datastore_metrics d\<rparr>"
  have "follows env e ?w0 (getDatastoreMetric env e d w)
          (case namespace_listing env e (sent w) (Store d) of
             None \<Rightarrow> [Call ?url False]
           | Some names \<Rightarrow> Call ?url True # namespaces_trace env e (Store d) names (sent w @ [api_request e ?url]))"
  proof (cases "fst (apiGet env e ''ERROR: --'' ?url w)")
    case (Inl err)
    then have none: "namespace_listing env e (sent w) (Store d) = None"
      by (simp add: namespace_listing_def apiGet_Inl_fetch)
    show ?thesis
      unfolding none option.case
      by (rule follows_failed_Call) (simp_all add: getDatastoreMetric_eq Inl requested_def ch_sent_swap)
  next
    case body: (Inr body)
    note url_ok = apiGet_fst_Inr [OF body]
    show ?thesis
    proof (cases "Unmarshal_NamespaceResponse env body")
      case (Inl msg)
      with body have none: "namespace_listing env e (sent w) (Store d) = None"
        by (simp add: namespace_listing_def apiGet_Inr_fetch)
      show ?thesis
        unfolding none option.case
        by (rule follows_failed_Call)
          (simp_all add: getDatastoreMetric_eq body Inl requested_def url_ok ch_sent_swap)
    next
      case (Inr data)
      with body have some: "namespace_listing env e (sent w) (Store d) = Some (map Namespace data)"
        by (simp add: namespace_listing_def apiGet_Inr_fetch)
      let ?w1 = "?w0\<lparr>sent := sent ?w0 @ [api_request e ?url]\<rparr>"
      have run: "getDatastoreMetric env e d w = namespaces_loop env e (Store d) data ?w1"
        by (simp add: getDatastoreMetric_eq body Inr ch_sent_swap)
      have "follows env e ?w1 (namespaces_loop env e (Store d) data ?w1)
              (namespaces_trace env e (Store d) (map Namespace data) (sent ?w1))"
        by (rule namespaces_loop_follows)
      then have "follows env e ?w0 (getDatastoreMetric env e d w)
          (Call ?url True # namespaces_trace env e (Store d) (map Namespace data) (sent ?w1))"
        unfolding run by (rule follows_Cons_Call) (simp add: requested_def url_ok)
      then show ?thesis
        unfolding some option.case by simp
    qed
  qed
  then show ?thesis
    unfolding datastore_trace_def by (rule follows_Cons_Gauges)
qed

lemma datastores_loop_follows:
  "follows env e w (datastores_loop env e dss w) (datastores_trace env e dss (sent w))"
proof (induction dss arbitrary: w)
  case Nil
  show ?case by (simp add: follows_Nil)
next
  case (Cons d dss)
  obtain r w1 where run: "getDatastoreMetric env e d w = (r, w1)"
    by (cases "getDatastoreMetric env e d w") blast
  note first = getDatastoreMetric_follows [of env e w d, unfolded run]
  show ?case
  proof (cases r)
    case (Some err)
    with follows_result [OF first] have "failed (datastore_trace env e d (sent w))" by simp
    with first run Some show ?thesis by simp
  next
    case None
    with follows_result [OF first] have ok: "\<not> failed (datastore_trace env e d (sent w))" by simp
    have "follows env e w (datastores_loop env e dss w1)
            (datastore_trace env e d (sent w) @ datastores_trace env e dss (sent w1))"
      using first [unfolded None] Cons.IH [of w1] by (rule follows_append)
    with run None ok follows_sent [OF first] show ?thesis by simp
  qed
qed

lemma getNodeMetrics_follows:
  "follows env e w (getNodeMetrics env e w)
     (case node_status env e (sent w) of
        None \<Rightarrow> [Call (node_url e) False]
      | Some h \<Rightarrow> [Call (node_url e) True, HostSamples h])"
proof (cases "fst (apiGet env e ''ERROR: '' (node_url e) w)")
  case (Inl err)
  then have none: "node_status env e (sent w) = None"
    by (simp add: node_status_def apiGet_Inl_fetch)
  show ?thesis
    unfolding none option.case
    by (rule follows_failed_Call) (simp_all add: getNodeMetrics_eq Inl requested_def)
next
  case body: (Inr body)
  note url_ok = apiGet_fst_Inr [OF body]
  show ?thesis
  proof (cases "Unmarshal_HostResponse env body")
    case (Inl msg)
    with body have none: "node_status env e (sent w) = None"
      by (simp add: node_status_def apiGet_Inr_fetch)
    show ?thesis
      unfolding none option.case
      by (rule follows_failed_Call) (simp_all add: getNodeMetrics_eq body Inl requested_def url_ok)
  next
    case (Inr h)
    with body have some: "node_status env e (sent w) = Some h"
      by (simp add: node_status_def apiGet_Inr_fetch)
    show ?thesis
      unfolding some option.case
    proof (rule followsI [where ms = "host_metrics h" and vss = "[[], map view (host_metrics h)]"])
      show "list_all2 writes [Call (node_url e) True, HostSamples h] [[], map view (host_metrics h)]"
        using view_host_metrics [of h] by simp
    qed (simp_all add: getNodeMetrics_eq body Inr requests_simps failed_simps requested_def url_ok)
  qed
qed

lemma collectFromAPI_follows:
  "follows env e w (collectFromAPI env e w) (scrape_trace env e (sent w))"
proof (cases "fst (apiGet env e ''ERROR: '' (usage_url e) w)")
  case (Inl err)
  then have none: "usage_listing env e (sent w) = None"
    by (simp add: usage_listing_def apiGet_Inl_fetch)
  show ?thesis
    unfolding scrape_trace_def none option.case
    by (rule follows_failed_Call) (simp_all add: collectFromAPI_eq Inl requested_def)
next
  case body: (Inr body)
  note url_ok = apiGet_fst_Inr [OF body]
  show ?thesis
  proof (cases "Unmarshal_DatastoreResponse env body")
    case (Inl msg)
    with body have none: "usage_listing env e (sent w) = None"
      by (simp add: usage_listing_def apiGet_Inr_fetch)
    show ?thesis
      unfolding scrape_trace_def none option.case
      by (rule follows_failed_Call) (simp_all add: collectFromAPI_eq body Inl requested_def url_ok)
  next
    case (Inr dss)
    with body have some: "usage_listing env e (sent w) = Some dss"
      by (simp add: usage_listing_def apiGet_Inr_fetch)
    let ?w1 = "w\<lparr>sent := sent w @ [api_request e (usage_url e)]\<rparr>"
    let ?t = "Call (usage_url e) True # datastores_trace env e dss (sent w @ [api_request e (usage_url e)])"
    obtain r w2 where loop: "datastores_loop env e dss ?w1 = (r, w2)"
      by (cases "datastores_loop env e dss ?w1") blast
    have "follows env e ?w1 (r, w2) (datastores_trace env e dss (sent ?w1))"
      using datastores_loop_follows [of env e ?w1 dss] by (simp only: loop)
    then have first: "follows env e w (r, w2) ?t"
      by (intro follows_Cons_Call) (simp_all add: requested_def url_ok)
    show ?thesis
    proof (cases r)
      case (Some err)
      with follows_result [OF first] have bad: "failed ?t" by simp
      have "collectFromAPI env e w = (r, w2)"
        using loop Some by (simp add: collectFromAPI_eq body Inr)
      with first bad show ?thesis
        unfolding scrape_trace_def some option.case Let_def by simp
    next
      case None
      with follows_result [OF first] have ok: "\<not> failed ?t" by simp
      have run: "collectFromAPI env e w = getNodeMetrics env e w2"
        using loop None by (simp add: collectFromAPI_eq body Inr)
      have sent2: "sent w2 = sent w @ requests env e ?t"
        by (rule follows_sent [OF first])
      have "follows env e w (getNodeMetrics env e w2)
              (?t @ (case node_status env e (sent w2) of
                       None \<Rightarrow> [Call (node_url e) False]
                     | Some h \<Rightarrow> [Call (node_url e) True, HostSamples h]))"
        using first [unfolded None] getNodeMetrics_follows [of env e w2] by (rule follows_append)
      with run ok sent2 show ?thesis
        unfolding scrape_trace_def some option.case Let_def by simp
    qed
  qed
qed

subsection \<open>The scrape follows its trace\<close>

lemma Collect_follows:
  "\<exists>ms vss. Collect env e w =
       w\<lparr>sent := sent w @ requests env e (scrape_trace env e (sent w)),
         ch := ch w @ ms @ [up_metric (if failed (scrape_trace env e (sent w)) then 0 else 1)],
         logged := logged w @ (case fst (collectFromAPI env e w) of None \<Rightarrow> [] | Some err \<Rightarrow> [err])\<rparr>
     \<and> (fst (collectFromAPI env e w) = None \<longleftrightarrow> \<not> failed (scrape_trace env e (sent w)))
     \<and> map view ms = concat vss
     \<and> (visits_once env \<longrightarrow> list_all2 writes (scrape_trace env e (sent w)) vss)"
proof -
  let ?t = "scrape_trace env e (sent w)"
  from collectFromAPI_follows [of env e w] obtain ms vss where
    r: "fst (collectFromAPI env e w) = None \<longleftrightarrow> \<not> failed ?t"
    and w': "snd (collectFromAPI env e w) = w\<lparr>sent := sent w @ requests env e ?t, ch := ch w @ ms\<rparr>"
    and vs: "map view ms = concat vss" "visits_once env \<longrightarrow> list_all2 writes ?t vss"
    unfolding follows_def by (elim exE conjE) (rule that; assumption)
  have "Collect env e w =
       w\<lparr>sent := sent w @ requests env e ?t,
         ch := ch w @ ms @ [up_metric (if failed ?t then 0 else 1)],
         logged := logged w @ (case fst (collectFromAPI env e w) of None \<Rightarrow> [] | Some err \<Rightarrow> [err])\<rparr>"
    using r w' by (cases "fst (collectFromAPI env e w)") (simp_all add: Collect_eq)
  with r vs show ?thesis
    by (intro exI[of _ ms] exI[of _ vss] conjI)
qed

lemma fetch_requested: "fetch env e hist url = Some body \<Longrightarrow> requested env e url = [api_request e url]"
  by (simp add: fetch_def requested_def split: option.splits)

lemma listing_requested:
  "usage_listing env e hist = Some dss \<Longrightarrow> requested env e (usage_url e) = [api_request e (usage_url e)]"
  "node_status env e hist = Some h \<Longrightarrow> requested env e (node_url e) = [api_request e (node_url e)]"
  by (auto simp add: usage_listing_def node_status_def fetch_requested split: option.splits)

lemma scrape_trace_requests:
  assumes "usage_listing env e hist = Some dss" and "\<not> failed (scrape_trace env e hist)"
  shows "requests env e (scrape_trace env e hist) =
           api_request e (usage_url e)
             # requests env e (datastores_trace env e dss (hist @ [api_request e (usage_url e)]))
             @ [api_request e (node_url e)]"
  using assms
  by (auto simp add: scrape_trace_def Let_def failed_simps requests_simps listing_requested
      split: option.splits if_splits)

subsection \<open>Failures in the trace\<close>





lemma failure_reaches_the_scrape:
  "usage_listing env e hist = None \<Longrightarrow> failed (scrape_trace env e hist)"
  "usage_listing env e hist = Some dss \<Longrightarrow>
     failed (datastores_trace env e dss (hist @ [api_request e (usage_url e)])) \<Longrightarrow>
     failed (scrape_trace env e hist)"
  "usage_listing env e hist = Some dss \<Longrightarrow>
     node_status env e
       (hist @ requests env e (Call (usage_url e) True
                                 # datastores_trace env e dss (hist @ [api_request e (usage_url e)]))) = None \<Longrightarrow>
     failed (scrape_trace env e hist)"
  "failed (datastore_trace env e d hist) \<Longrightarrow> failed (datastores_trace env e (d # ds) hist)"
  "failed (datastores_trace env e ds (hist @ requests env e (datastore_trace env e d hist))) \<Longrightarrow>
     failed (datastores_trace env e (d # ds) hist)"
  "namespace_listing env e hist (Store d) = None \<Longrightarrow> failed (datastore_trace env e d hist)"
  "namespace_listing env e hist (Store d) = Some names \<Longrightarrow>
     failed (namespaces_trace env e (Store d) names (hist @ [api_request e (namespace_url e (Store d))])) \<Longrightarrow>
     failed (datastore_trace env e d hist)"
  "n \<noteq> [] \<Longrightarrow> snapshot_listing env e hist store n = None \<Longrightarrow>
     failed (namespaces_trace env e store (n # ns) hist)"
  "n \<noteq> [] \<Longrightarrow> snapshot_listing env e hist store n = Some ids \<Longrightarrow>
     failed (namespaces_trace env e store ns (hist @ [api_request e (snapshots_url e store n)])) \<Longrightarrow>
     failed (namespaces_trace env e store (n # ns) hist)"
  "failed (namespaces_trace env e store ns hist) \<Longrightarrow> failed (namespaces_trace env e store ([] # ns) hist)"
  by (simp_all add: scrape_trace_def datastore_trace_def Let_def failed_simps)

subsection \<open>No sample of an event is the up sample\<close>



subsection \<open>The traces of the examples\<close>

lemma ex_fetch:
  "fetch (ex_env routes) e hist url =
     (case map_of routes url of
        None \<Rightarrow> None
      | Some resp \<Rightarrow>
          (case Body resp of Inl msg \<Rightarrow> None | Inr body \<Rightarrow> if StatusCode resp = 200 then Some body else None))"
  by (simp add: fetch_def ex_env_def api_request_def split: option.splits)

lemma ex_requested: "requested (ex_env routes) e url = [api_request e url]"
  by (simp add: requested_def ex_env_simps)

lemmas listing_defs = usage_listing_def namespace_listing_def snapshot_listing_def node_status_def

lemma healthy_trace:
  "scrape_trace (ex_env healthy) ex_exporter hist =
     [Call ''h/api2/json/status/datastore-usage'' True,
      Gauges ex_datastore,
      Call ''h/api2/json/admin/datastore/ds1/namespace'' True,
      Call ''h/api2/json/admin/datastore/ds1/snapshots?ns=n1'' True,
      Counts ''n1'' [''a'', ''a'', ''b''],
      Call ''h/api2/json/nodes/localhost/status'' True,
      HostSamples ex_host]"
  by (simp add: scrape_trace_def datastore_trace_def listing_defs ex_fetch ex_env_simps ex_urls
      healthy_def ok200_def failed_simps ex_snapshots_def)


section \<open>Failed scrapes\<close>




section \<open>The order of the calls\<close>

text \<open>
  On the healthy example server the four calls of a scrape are, in order: the usage
  listing, the namespace listing of the datastore, the snapshot listing of its namespace,
  and the node status. The host call is the last one, not the first.
\<close>

theorem host_call_is_last:
  "fst (collectFromAPI (ex_env healthy) ex_exporter idle) = None
   \<and> map URL (sent (scrape (ex_env healthy) ex_exporter)) =
       [''h/api2/json/status/datastore-usage'',
        ''h/api2/json/admin/datastore/ds1/namespace'',
        ''h/api2/json/admin/datastore/ds1/snapshots?ns=n1'',
        ''h/api2/json/nodes/localhost/status'']"
  by (simp add: scrape_def Collect_eq healthy_run scrape_calls_def datastore_calls_def api_request_def ex_urls)

text \<open>
  Claim C2, as the code has it. The requests of a scrape are those of its trace, in the
  order of the trace, and no other: the usage listing first; then, for each datastore in
  the order of the listing, its namespace listing followed by the snapshot listing of
  each of its non-empty namespaces, in the order of that listing; the node status last.
  The first fetch that fails ends the sequence. When no fetch fails, the requests are the
  usage listing, those of the datastores, and the node status, which is the last one.
\<close>

theorem scrape_call_order:
  "sent (Collect env e w) = sent w @ requests env e (scrape_trace env e (sent w))
   \<and> (\<forall>dss. usage_listing env e (sent w) = Some dss \<and> \<not> failed (scrape_trace env e (sent w)) \<longrightarrow>
         requests env e (scrape_trace env e (sent w)) =
           api_request e (usage_url e)
             # requests env e (datastores_trace env e dss (sent w @ [api_request e (usage_url e)]))
             @ [api_request e (node_url e)])"
proof -
  have "sent (Collect env e w) = sent w @ requests env e (scrape_trace env e (sent w))"
    using Collect_follows [of env e w] by auto
  then show ?thesis
    using scrape_trace_requests [of env e "sent w"] by blast
qed

theorem scrape_call_order_witness:
  "sent (Collect (ex_env healthy) ex_exporter idle) =
     [api_request ex_exporter ''h/api2/json/status/datastore-usage'',
      api_request ex_exporter ''h/api2/json/admin/datastore/ds1/namespace'',
      api_request ex_exporter ''h/api2/json/admin/datastore/ds1/snapshots?ns=n1'',
      api_request ex_exporter ''h/api2/json/nodes/localhost/status'']"
  using scrape_call_order [of "ex_env healthy" ex_exporter idle]
  by (simp add: healthy_trace requests_simps ex_requested idle_def)

section \<open>Snapshot counts\<close>

lemma variableLabels_simps:
  "variableLabels snapshot_count = [''namespace'']"
  "variableLabels snapshot_vm_count = [''namespace'', ''vm_id'']"
  by (simp_all add: desc_defs NewDesc_def)

lemma view_snapshot_count_metric:
  "view (snapshot_count_metric namespace n) = (''pbs_snapshot_count'', GaugeValue, [namespace], Float64_of_int n)"
  by (simp add: snapshot_count_metric_def view_MustNewConstMetric fqName_simps)

lemma image_view_vm_metrics:
  assumes range: "mset (map_range env (count_snapshots data)) = mset (count_snapshots data)"
  shows "image_mset view (mset (map (snapshot_vm_metric namespace) (map_range env (count_snapshots data)))) =
           image_mset (\<lambda>k. (''pbs_snapshot_vm_count'', GaugeValue, [namespace, k],
                             Float64_of_int (int (count (mset (map BackupID data)) k))))
             (mset_set (set (map BackupID data)))"
proof -
  have "image_mset view (mset (map (snapshot_vm_metric namespace) (map_range env (count_snapshots data))))
      = image_mset view (image_mset (\<lambda>k. snapshot_vm_metric namespace (k, int (count (mset (map BackupID data)) k)))
             (mset_set (set (map BackupID data))))"
    by (simp only: range_vm_metrics [OF range])
  also have "\<dots> = image_mset (\<lambda>k. (''pbs_snapshot_vm_count'', GaugeValue, [namespace, k],
                             Float64_of_int (int (count (mset (map BackupID data)) k))))
             (mset_set (set (map BackupID data)))"
    by (simp only: multiset.map_comp comp_def view_snapshot_vm_metric)
  finally show ?thesis .
qed

text \<open>
  Claim C3. Let \<^verbatim>\<open>range\<close> visit every entry of a map once, in any order, and let the
  snapshot listing of a namespace be fetched and decoded to \<open>data\<close>. Then the namespace
  collector writes one sample and then a list of samples. The first is the gauge
  \<open>pbs_snapshot_count\<close>, labelled with the namespace, whose value is the length of the
  listing. The others are, as a multiset, one gauge \<open>pbs_snapshot_vm_count\<close> for each
  distinct backup id of the listing, labelled with the namespace and the id (the labels
  \<open>namespace\<close> and \<open>vm_id\<close>), whose value is the number of times the id occurs. This
  depends on the listing only through the multiset of its backup ids, not on their
  order: for a listing whose backup ids are \<open>a, a, b\<close> in any order (\<open>a \<noteq> b\<close>), the
  count is 3 and the other samples are \<open>a: 2\<close> and \<open>b: 1\<close>.
\<close>

theorem snapshot_grouping:
  assumes range: "\<And>m. mset (map_range env m) = mset m"
    and ans: "answers env e w (snapshots_url e store namespace) resp"
    and ok: "StatusCode resp = 200" "Body resp = Inr body"
    and dec: "Unmarshal_SnapshotResponse env body = Inr data"
  shows "\<exists>c vms. getNamespaceMetric env e store namespace w =
             (None, w\<lparr>sent := sent w @ [api_request e (snapshots_url e store namespace)],
                      ch := ch w @ c # vms\<rparr>)
           \<and> (fqName (desc c), valType c, labelValues c, val c) =
               (''pbs_snapshot_count'', GaugeValue, [namespace], Float64_of_int (int (length data)))
           \<and> variableLabels (desc c) = [''namespace'']
           \<and> image_mset (\<lambda>m. (fqName (desc m), valType m, labelValues m, val m)) (mset vms) =
               image_mset (\<lambda>k. (''pbs_snapshot_vm_count'', GaugeValue, [namespace, k],
                                 Float64_of_int (int (count (mset (map BackupID data)) k))))
                 (mset_set (set (map BackupID data)))
           \<and> list_all (\<lambda>m. variableLabels (desc m) = [''namespace'', ''vm_id'']) vms
           \<and> (\<forall>a b. a \<noteq> b \<and> mset (map BackupID data) = {#a, a, b#} \<longrightarrow>
                 val c = Float64_of_int 3
                 \<and> image_mset (\<lambda>m. (fqName (desc m), valType m, labelValues m, val m)) (mset vms) =
                     {#(''pbs_snapshot_vm_count'', GaugeValue, [namespace, a], Float64_of_int 2),
                       (''pbs_snapshot_vm_count'', GaugeValue, [namespace, b], Float64_of_int 1)#})"
proof -
  let ?c = "snapshot_count_metric namespace (int (length data))"
  let ?vms = "map (snapshot_vm_metric namespace) (map_range env (count_snapshots data))"
  let ?ids = "map BackupID data"
  let ?view = "\<lambda>m. (fqName (desc m), valType m, labelValues m, val m)"
  have view: "view = ?view"
    by (rule ext) (simp add: view_def)
  have run: "getNamespaceMetric env e store namespace w =
             (None, w\<lparr>sent := sent w @ [api_request e (snapshots_url e store namespace)],
                      ch := ch w @ ?c # ?vms\<rparr>)"
    using getNamespaceMetric_ok [OF ans ok dec] by (simp add: namespace_metrics_def)
  have c: "?view ?c = (''pbs_snapshot_count'', GaugeValue, [namespace], Float64_of_int (int (length data)))"
    by (simp add: snapshot_count_metric_def MustNewConstMetric_def fqName_simps)
  have c_labels: "variableLabels (desc ?c) = [''namespace'']"
    by (simp add: snapshot_count_metric_def desc_MustNewConstMetric variableLabels_simps)
  have general: "image_mset ?view (mset ?vms) =
      image_mset (\<lambda>k. (''pbs_snapshot_vm_count'', GaugeValue, [namespace, k],
                        Float64_of_int (int (count (mset ?ids) k))))
        (mset_set (set ?ids))"
    using image_view_vm_metrics [of env data namespace, OF range] by (simp only: view)
  have vm_labels: "list_all (\<lambda>m. variableLabels (desc m) = [''namespace'', ''vm_id'']) ?vms"
    by (simp add: list_all_iff snapshot_vm_metric_def desc_MustNewConstMetric variableLabels_simps)
  have aab: "val ?c = Float64_of_int 3
      \<and> image_mset ?view (mset ?vms) =
          {#(''pbs_snapshot_vm_count'', GaugeValue, [namespace, a], Float64_of_int 2),
            (''pbs_snapshot_vm_count'', GaugeValue, [namespace, b], Float64_of_int 1)#}"
    if ab: "a \<noteq> b" and ids: "mset ?ids = {#a, a, b#}" for a b
  proof -
    have "size (mset ?ids) = 3" by (simp only: ids) simp
    then have len: "int (length data) = 3" by simp
    have "val ?c = Float64_of_int (int (length data))"
      by (simp add: snapshot_count_metric_def MustNewConstMetric_def)
    with len have count: "val ?c = Float64_of_int 3" by simp
    have "set_mset (mset ?ids) = {a, b}" by (simp only: ids) auto
    then have "set ?ids = {a, b}" by simp
    then have "mset_set (set ?ids) = {#a, b#}" using ab by simp
    moreover have "count (mset ?ids) a = 2" "count (mset ?ids) b = 1"
      using ab by (simp_all only: ids) simp_all
    ultimately have "image_mset ?view (mset ?vms) =
          {#(''pbs_snapshot_vm_count'', GaugeValue, [namespace, a], Float64_of_int 2),
            (''pbs_snapshot_vm_count'', GaugeValue, [namespace, b], Float64_of_int 1)#}"
      by (simp only: general) simp
    with count show ?thesis ..
  qed
  have aab_all: "\<forall>a b. a \<noteq> b \<and> mset ?ids = {#a, a, b#} \<longrightarrow>
      val ?c = Float64_of_int 3
      \<and> image_mset ?view (mset ?vms) =
          {#(''pbs_snapshot_vm_count'', GaugeValue, [namespace, a], Float64_of_int 2),
            (''pbs_snapshot_vm_count'', GaugeValue, [namespace, b], Float64_of_int 1)#}"
  proof (intro allI impI)
    fix a b assume "a \<noteq> b \<and> mset ?ids = {#a, a, b#}"
    then have "a \<noteq> b" "mset ?ids = {#a, a, b#}"
      by (rule conjunct1, rule conjunct2)
    then show "val ?c = Float64_of_int 3
      \<and> image_mset ?view (mset ?vms) =
          {#(''pbs_snapshot_vm_count'', GaugeValue, [namespace, a], Float64_of_int 2),
            (''pbs_snapshot_vm_count'', GaugeValue, [namespace, b], Float64_of_int 1)#}"
      by (rule aab)
  qed
  show ?thesis
    by (intro exI[of _ ?c] exI[of _ ?vms] conjI)
      (fact run, fact c, fact c_labels, fact general, fact vm_labels, fact aab_all)
qed

theorem snapshot_grouping_witness:
  "\<exists>c vms. ch (snd (getNamespaceMetric (ex_env healthy) ex_exporter ''ds1'' ''n1'' idle)) = c # vms
         \<and> fst (getNamespaceMetric (ex_env healthy) ex_exporter ''ds1'' ''n1'' idle) = None
         \<and> (fqName (desc c), valType c, labelValues c, val c) =
             (''pbs_snapshot_count'', GaugeValue, [''n1''], Float64_of_int 3)
         \<and> image_mset (\<lambda>m. (fqName (desc m), valType m, labelValues m, val m)) (mset vms) =
             {#(''pbs_snapshot_vm_count'', GaugeValue, [''n1'', ''a''], Float64_of_int 2),
               (''pbs_snapshot_vm_count'', GaugeValue, [''n1'', ''b''], Float64_of_int 1)#}"
proof -
  have ids: "''a'' \<noteq> ''b'' \<and> mset (map BackupID ex_snapshots) = {#''a'', ''a'', ''b''#}"
    by (simp add: ex_snapshots_def)
  have ok: "StatusCode (ok200 ''S'') = 200" "Body (ok200 ''S'') = Inr ''S''"
    by (simp_all add: ok200_def)
  have dec: "Unmarshal_SnapshotResponse (ex_env healthy) ''S'' = Inr ex_snapshots"
    by (simp add: ex_env_simps)
  from snapshot_grouping [OF ex_range ex_snapshot_answers(1) ok dec]
  obtain c vms where run: "getNamespaceMetric (ex_env healthy) ex_exporter ''ds1'' ''n1'' idle =
             (None, idle\<lparr>sent := sent idle @ [api_request ex_exporter (snapshots_url ex_exporter ''ds1'' ''n1'')],
                      ch := ch idle @ c # vms\<rparr>)"
    and c: "(fqName (desc c), valType c, labelValues c, val c) =
               (''pbs_snapshot_count'', GaugeValue, [''n1''], Float64_of_int (int (length ex_snapshots)))"
    and aab: "\<forall>a b. a \<noteq> b \<and> mset (map BackupID ex_snapshots) = {#a, a, b#} \<longrightarrow>
        val c = Float64_of_int 3
        \<and> image_mset (\<lambda>m. (fqName (desc m), valType m, labelValues m, val m)) (mset vms) =
            {#(''pbs_snapshot_vm_count'', GaugeValue, [''n1'', a], Float64_of_int 2),
              (''pbs_snapshot_vm_count'', GaugeValue, [''n1'', b], Float64_of_int 1)#}"
    by (elim exE conjE) (rule that; assumption)
  from run have ch: "ch (snd (getNamespaceMetric (ex_env healthy) ex_exporter ''ds1'' ''n1'' idle)) = c # vms"
    and r: "fst (getNamespaceMetric (ex_env healthy) ex_exporter ''ds1'' ''n1'' idle) = None"
    by (simp_all add: idle_def)
  from c have c3: "(fqName (desc c), valType c, labelValues c, val c) =
             (''pbs_snapshot_count'', GaugeValue, [''n1''], Float64_of_int 3)"
    by (simp add: ex_snapshots_def)
  from aab [rule_format, OF ids] have vms: "image_mset (\<lambda>m. (fqName (desc m), valType m, labelValues m, val m)) (mset vms) =
             {#(''pbs_snapshot_vm_count'', GaugeValue, [''n1'', ''a''], Float64_of_int 2),
               (''pbs_snapshot_vm_count'', GaugeValue, [''n1'', ''b''], Float64_of_int 1)#}"
    by (rule conjunct2)
  show ?thesis
    by (intro exI[of _ c] exI[of _ vms] conjI) (fact ch, fact r, fact c3, fact vms)
qed

text \<open>
  Claim C9. Under the same conditions, the samples written for a listing are the gauge
  \<open>pbs_snapshot_count\<close> of the namespace followed by gauges \<open>pbs_snapshot_vm_count\<close> of
  the namespace for pairwise distinct backup ids, exactly those of the listing. The
  values of the latter samples are converted counters that add up to the counter of the
  \<open>pbs_snapshot_count\<close> sample, the length of the listing. For an empty listing the
  collector writes the \<open>pbs_snapshot_count\<close> sample with the value 0 and nothing else.
\<close>

theorem snapshot_counts_add_up:
  assumes range: "\<And>m. mset (map_range env m) = mset m"
    and ans: "answers env e w (snapshots_url e store namespace) resp"
    and ok: "StatusCode resp = 200" "Body resp = Inr body"
    and dec: "Unmarshal_SnapshotResponse env body = Inr data"
  shows "\<exists>c vms ks ns total.
           ch (snd (getNamespaceMetric env e store namespace w)) = ch w @ c # vms
           \<and> (fqName (desc c), labelValues c, val c) = (''pbs_snapshot_count'', [namespace], Float64_of_int total)
           \<and> map (\<lambda>m. (fqName (desc m), labelValues m)) vms =
               map (\<lambda>k. (''pbs_snapshot_vm_count'', [namespace, k])) ks
           \<and> map val vms = map Float64_of_int ns
           \<and> distinct ks
           \<and> set ks = set (map BackupID data)
           \<and> sum_list ns = total
           \<and> total = int (length data)
           \<and> (data = [] \<longrightarrow> vms = [] \<and> val c = Float64_of_int 0)"
proof -
  let ?kvs = "map_range env (count_snapshots data)"
  let ?c = "snapshot_count_metric namespace (int (length data))"
  let ?vms = "map (snapshot_vm_metric namespace) ?kvs"
  have perm: "mset ?kvs = mset (count_snapshots data)" by (rule range)
  have emitted: "ch (snd (getNamespaceMetric env e store namespace w)) = ch w @ ?c # ?vms"
    using getNamespaceMetric_ok [OF ans ok dec] by (simp add: namespace_metrics_def)
  have c: "(fqName (desc ?c), labelValues ?c, val ?c) =
      (''pbs_snapshot_count'', [namespace], Float64_of_int (int (length data)))"
    by (simp add: snapshot_count_metric_def MustNewConstMetric_def fqName_simps)
  have names: "map (\<lambda>m. (fqName (desc m), labelValues m)) ?vms =
      map (\<lambda>k. (''pbs_snapshot_vm_count'', [namespace, k])) (map fst ?kvs)"
    by (simp add: snapshot_vm_metric_def MustNewConstMetric_def fqName_simps)
  have vals: "map val ?vms = map Float64_of_int (map snd ?kvs)"
    by (simp add: snapshot_vm_metric_def MustNewConstMetric_def)
  have keys: "mset (map fst ?kvs) = mset (map fst (count_snapshots data))"
    by (simp only: mset_map perm)
  have dist: "distinct (map fst ?kvs)"
    using keys count_snapshots_distinct [of data] by (metis mset_eq_imp_distinct_iff)
  have ids: "set (map fst ?kvs) = set (map BackupID data)"
    using keys count_snapshots_keys [of data] by (metis mset_eq_setD)
  have total: "sum_list (map snd ?kvs) = int (length data)"
  proof -
    have "mset (map snd ?kvs) = mset (map snd (count_snapshots data))"
      by (simp only: mset_map perm)
    then have "sum_list (map snd ?kvs) = sum_list (map snd (count_snapshots data))"
      by (metis sum_mset_sum_list)
    then show ?thesis by (simp only: count_snapshots_sum)
  qed
  have empty: "?vms = [] \<and> val ?c = Float64_of_int 0" if "data = []"
  proof -
    from that have "count_snapshots data = []" by (simp add: count_snapshots_def)
    with perm have "?kvs = []" by simp
    with that show ?thesis by (simp add: snapshot_count_metric_def MustNewConstMetric_def)
  qed
  show ?thesis
    by (intro exI[of _ ?c] exI[of _ ?vms] exI[of _ "map fst ?kvs"] exI[of _ "map snd ?kvs"]
        exI[of _ "int (length data)"] conjI impI)
      (fact emitted, fact c, fact names, fact vals, fact dist, fact ids, fact total, rule refl,
        (use empty in blast)+)
qed

theorem snapshot_counts_add_up_witness:
  "(\<exists>c vms ns. ch (snd (getNamespaceMetric (ex_env healthy) ex_exporter ''ds1'' ''n1'' idle)) = c # vms
          \<and> val c = Float64_of_int 3 \<and> map val vms = map Float64_of_int ns \<and> sum_list ns = 3)
   \<and> (\<exists>c. ch (snd (getNamespaceMetric (ex_env empty_namespace) ex_exporter ''ds1'' ''n1'' idle)) = [c]
          \<and> (fqName (desc c), labelValues c, val c) = (''pbs_snapshot_count'', [''n1''], Float64_of_int 0))"
proof -
  have ok: "StatusCode (ok200 body) = 200" "Body (ok200 body) = Inr body" for body
    by (simp_all add: ok200_def)
  have dec: "Unmarshal_SnapshotResponse (ex_env healthy) ''S'' = Inr ex_snapshots"
    "Unmarshal_SnapshotResponse (ex_env empty_namespace) ''E'' = Inr []"
    by (simp_all add: ex_env_simps)
  from snapshot_counts_add_up [OF ex_range ex_snapshot_answers(1) ok dec(1)]
  obtain c vms ns total where
    "ch (snd (getNamespaceMetric (ex_env healthy) ex_exporter ''ds1'' ''n1'' idle)) = ch idle @ c # vms"
    "(fqName (desc c), labelValues c, val c) = (''pbs_snapshot_count'', [''n1''], Float64_of_int total)"
    "map val vms = map Float64_of_int ns" "sum_list ns = total" "total = int (length ex_snapshots)"
    by (elim exE conjE) (rule that; assumption)
  then have "ch (snd (getNamespaceMetric (ex_env healthy) ex_exporter ''ds1'' ''n1'' idle)) = c # vms
      \<and> val c = Float64_of_int 3 \<and> map val vms = map Float64_of_int ns \<and> sum_list ns = 3"
    by (simp add: idle_def ex_snapshots_def)
  then have full: "\<exists>c vms ns. ch (snd (getNamespaceMetric (ex_env healthy) ex_exporter ''ds1'' ''n1'' idle)) = c # vms
          \<and> val c = Float64_of_int 3 \<and> map val vms = map Float64_of_int ns \<and> sum_list ns = 3"
    by (intro exI[of _ c] exI[of _ vms] exI[of _ ns])
  from snapshot_counts_add_up [OF ex_range ex_snapshot_answers(2) ok dec(2)]
  obtain c' vms' total' where
    "ch (snd (getNamespaceMetric (ex_env empty_namespace) ex_exporter ''ds1'' ''n1'' idle)) = ch idle @ c' # vms'"
    "(fqName (desc c'), labelValues c', val c') = (''pbs_snapshot_count'', [''n1''], Float64_of_int total')"
    "total' = int (length ([] :: SnapshotEntry list))"
    "([] :: SnapshotEntry list) = [] \<longrightarrow> vms' = [] \<and> val c' = Float64_of_int 0"
    by (elim exE conjE) (rule that; assumption)
  then have "ch (snd (getNamespaceMetric (ex_env empty_namespace) ex_exporter ''ds1'' ''n1'' idle)) = [c']
      \<and> (fqName (desc c'), labelValues c', val c') = (''pbs_snapshot_count'', [''n1''], Float64_of_int 0)"
    by (simp add: idle_def)
  then have none: "\<exists>c. ch (snd (getNamespaceMetric (ex_env empty_namespace) ex_exporter ''ds1'' ''n1'' idle)) = [c]
          \<and> (fqName (desc c), labelValues c, val c) = (''pbs_snapshot_count'', [''n1''], Float64_of_int 0)"
    by (intro exI[of _ c'])
  from full none show ?thesis by (intro conjI)
qed

section \<open>Enumerating the namespaces\<close>

lemma snapshots_url_inject:
  "snapshots_url e store n = snapshots_url e store n' \<longleftrightarrow> n = n'"
  by (simp add: snapshots_url_def)

lemma namespace_url_not_snapshots: "namespace_url e store \<noteq> snapshots_url e store n"
  by (simp add: namespace_url_def snapshots_url_def)

lemma api_request_inject: "api_request e url = api_request e url' \<longleftrightarrow> url = url'"
  by (simp add: api_request_def)

text \<open>
  Claim C4, as the code has it. Let the namespace listing of a datastore be fetched and decoded to \<open>data\<close>.
  Then the datastore collector runs the namespace collector on the non-empty namespace
  names of the listing, once for each entry and in the order of the listing, until one
  run returns an error; an entry with the empty name is passed over. The requests it
  sends after the namespace listing are snapshot listings of an initial part of those
  names, of all of them when it returns no error, and never of the empty namespace.
\<close>

theorem namespace_enumeration:
  assumes ans: "answers env e w (namespace_url e (Store d)) resp"
    and ok: "StatusCode resp = 200" "Body resp = Inr body"
    and dec: "Unmarshal_NamespaceResponse env body = Inr data"
  shows "getDatastoreMetric env e d w =
           for_each_until_error (getNamespaceMetric env e (Store d))
             (filter (\<lambda>n. n \<noteq> []) (map Namespace data))
             (w\<lparr>sent := sent w @ [api_request e (namespace_url e (Store d))],
                ch := ch w @ datastore_metrics d\<rparr>)
         \<and> (\<exists>rs. sent (snd (getDatastoreMetric env e d w)) = sent w @ api_request e (namespace_url e (Store d)) # rs
                \<and> prefix rs (map (\<lambda>n. api_request e (snapshots_url e (Store d) n))
                                (filter (\<lambda>n. n \<noteq> []) (map Namespace data)))
                \<and> api_request e (snapshots_url e (Store d) []) \<notin> set (api_request e (namespace_url e (Store d)) # rs)
                \<and> (fst (getDatastoreMetric env e d w) = None \<longrightarrow>
                      rs = map (\<lambda>n. api_request e (snapshots_url e (Store d) n))
                             (filter (\<lambda>n. n \<noteq> []) (map Namespace data))))"
proof -
  let ?w1 = "w\<lparr>sent := sent w @ [api_request e (namespace_url e (Store d))], ch := ch w @ datastore_metrics d\<rparr>"
  let ?calls = "map (\<lambda>n. api_request e (snapshots_url e (Store d) n)) (filter (\<lambda>n. n \<noteq> []) (map Namespace data))"
  have loop: "getDatastoreMetric env e d w = namespaces_loop env e (Store d) data ?w1"
    using apiGet_ok [OF ans ok, of "''ERROR: --''"] dec by (simp add: getDatastoreMetric_eq)
  obtain r w' where run: "namespaces_loop env e (Store d) data ?w1 = (r, w')"
    by (cases "namespaces_loop env e (Store d) data ?w1") blast
  from namespaces_loop_shape [OF run] obtain rs ms where
    w': "w' = ?w1\<lparr>sent := sent ?w1 @ rs, ch := ch ?w1 @ ms\<rparr>"
    and rs: "prefix rs ?calls" "r = None \<longrightarrow> rs = ?calls"
    by blast
  have sent: "sent (snd (getDatastoreMetric env e d w)) = sent w @ api_request e (namespace_url e (Store d)) # rs"
    using loop run w' by simp
  have "api_request e (snapshots_url e (Store d) []) \<notin> set ?calls"
    by (auto simp add: api_request_inject snapshots_url_inject)
  with rs(1) have "api_request e (snapshots_url e (Store d) []) \<notin> set rs"
    using set_mono_prefix by blast
  then have never: "api_request e (snapshots_url e (Store d) []) \<notin> set (api_request e (namespace_url e (Store d)) # rs)"
    using namespace_url_not_snapshots [of e "Store d" "[]"] by (simp add: api_request_inject)
  have complete: "fst (getDatastoreMetric env e d w) = None \<longrightarrow> rs = ?calls"
    using loop run rs(2) by simp
  have each: "getDatastoreMetric env e d w =
      for_each_until_error (getNamespaceMetric env e (Store d)) (filter (\<lambda>n. n \<noteq> []) (map Namespace data)) ?w1"
    using loop by (simp only: namespaces_loop_for_each)
  show ?thesis
    by (intro conjI exI[of _ rs]) (fact each, fact sent, fact rs(1), fact never, fact complete)
qed

theorem namespace_enumeration_witness:
  "getDatastoreMetric (ex_env healthy) ex_exporter ex_datastore idle =
     for_each_until_error (getNamespaceMetric (ex_env healthy) ex_exporter ''ds1'') [''n1'']
       (idle\<lparr>sent := [api_request ex_exporter ''h/api2/json/admin/datastore/ds1/namespace''],
             ch := datastore_metrics ex_datastore\<rparr>)
   \<and> map URL (sent (snd (getDatastoreMetric (ex_env healthy) ex_exporter ex_datastore idle))) =
       [''h/api2/json/admin/datastore/ds1/namespace'', ''h/api2/json/admin/datastore/ds1/snapshots?ns=n1'']"
proof -
  have ans: "answers (ex_env healthy) ex_exporter idle (namespace_url ex_exporter (Store ex_datastore)) (ok200 ''N'')"
    by (rule ex_answers) (simp add: healthy_def ex_urls)
  have ok: "StatusCode (ok200 ''N'') = 200" "Body (ok200 ''N'') = Inr ''N''"
    by (simp_all add: ok200_def)
  have dec: "Unmarshal_NamespaceResponse (ex_env healthy) ''N'' = Inr [\<lparr>Namespace = []\<rparr>, \<lparr>Namespace = ''n1''\<rparr>]"
    by (simp add: ex_env_simps)
  from namespace_enumeration [OF ans ok dec]
  have "getDatastoreMetric (ex_env healthy) ex_exporter ex_datastore idle =
     for_each_until_error (getNamespaceMetric (ex_env healthy) ex_exporter ''ds1'') [''n1'']
       (idle\<lparr>sent := [api_request ex_exporter ''h/api2/json/admin/datastore/ds1/namespace''],
             ch := datastore_metrics ex_datastore\<rparr>)"
    by (simp add: ex_urls idle_def)
  moreover have "map URL (sent (snd (getDatastoreMetric (ex_env healthy) ex_exporter ex_datastore idle))) =
       [''h/api2/json/admin/datastore/ds1/namespace'', ''h/api2/json/admin/datastore/ds1/snapshots?ns=n1'']"
    by (simp add: getDatastoreMetric_eq getNamespaceMetric_eq ex_fst_apiGet ex_env_simps ex_urls healthy_def
        ok200_def idle_def api_request_def)
  ultimately show ?thesis by (intro conjI)
qed

text \<open>
  The namespace collector is not run for every non-empty name of the listing. On the
  example server that lists the namespaces \<open>n1\<close> and \<open>n2\<close> and answers 500 to the
  snapshot listing of \<open>n1\<close>, the datastore collector returns the error of \<open>n1\<close> and the
  snapshot listing of \<open>n2\<close> is never requested, in the whole scrape.
\<close>

theorem listed_namespace_not_visited:
  "answers (ex_env first_namespace_fails) ex_exporter idle
     ''h/api2/json/admin/datastore/ds1/namespace'' (ok200 ''M'')
   \<and> Unmarshal_NamespaceResponse (ex_env first_namespace_fails) ''M'' =
       Inr [\<lparr>Namespace = ''n1''\<rparr>, \<lparr>Namespace = ''n2''\<rparr>]
   \<and> fst (getDatastoreMetric (ex_env first_namespace_fails) ex_exporter ex_datastore idle) =
       Some (StatusError ''ERROR: ----'' 500 ''h'')
   \<and> map URL (sent (snd (getDatastoreMetric (ex_env first_namespace_fails) ex_exporter ex_datastore idle))) =
       [''h/api2/json/admin/datastore/ds1/namespace'', ''h/api2/json/admin/datastore/ds1/snapshots?ns=n1'']
   \<and> map URL (sent (scrape (ex_env first_namespace_fails) ex_exporter)) =
       [''h/api2/json/status/datastore-usage'',
        ''h/api2/json/admin/datastore/ds1/namespace'',
        ''h/api2/json/admin/datastore/ds1/snapshots?ns=n1'']"
proof -
  have "answers (ex_env first_namespace_fails) ex_exporter idle
     ''h/api2/json/admin/datastore/ds1/namespace'' (ok200 ''M'')"
    by (rule ex_answers) (simp add: first_namespace_fails_def)
  moreover have "Unmarshal_NamespaceResponse (ex_env first_namespace_fails) ''M'' =
       Inr [\<lparr>Namespace = ''n1''\<rparr>, \<lparr>Namespace = ''n2''\<rparr>]"
    by (simp add: ex_env_simps)
  moreover have "getDatastoreMetric (ex_env first_namespace_fails) ex_exporter ex_datastore idle =
      (Some (StatusError ''ERROR: ----'' 500 ''h''),
       \<lparr>sent = [api_request ex_exporter ''h/api2/json/admin/datastore/ds1/namespace'',
                api_request ex_exporter ''h/api2/json/admin/datastore/ds1/snapshots?ns=n1''],
        ch = datastore_metrics ex_datastore, logged = []\<rparr>)"
    by (simp add: getDatastoreMetric_eq getNamespaceMetric_eq ex_fst_apiGet ex_env_simps ex_urls url_defs
        first_namespace_fails_def ok200_def status500_def idle_def)
  moreover have "sent (scrape (ex_env first_namespace_fails) ex_exporter) =
      [api_request ex_exporter ''h/api2/json/status/datastore-usage'',
       api_request ex_exporter ''h/api2/json/admin/datastore/ds1/namespace'',
       api_request ex_exporter ''h/api2/json/admin/datastore/ds1/snapshots?ns=n1'']"
    by (simp add: scrape_def Collect_eq collectFromAPI_eq getDatastoreMetric_eq getNamespaceMetric_eq
        ex_fst_apiGet ex_env_simps ex_urls url_defs first_namespace_fails_def ok200_def status500_def idle_def)
  ultimately show ?thesis
    by (simp add: api_request_def)
qed

section \<open>The samples of the host\<close>

text \<open>
  On the healthy example server the host collector succeeds and writes 12 samples, not
  11.
\<close>

theorem host_collector_emits_twelve:
  "fst (getNodeMetrics (ex_env healthy) ex_exporter idle) = None
   \<and> length (ch (snd (getNodeMetrics (ex_env healthy) ex_exporter idle))) = 12"
  by (simp add: getNodeMetrics_eq ex_fst_apiGet ex_env_simps ex_urls healthy_def ok200_def idle_def host_metrics_def)

text \<open>
  Claim C5, as the code has it. When the node status is fetched and decoded to \<open>d\<close>, the
  host collector writes exactly 12 samples (cpu usage; memory free, total, used; swap
  free, total, used; disk available, total, used; uptime; io wait), in this order, each a
  gauge without labels that carries the corresponding field of \<open>d\<close>.
\<close>

theorem host_collector_samples:
  assumes ans: "answers env e w (node_url e) resp"
    and ok: "StatusCode resp = 200" "Body resp = Inr body"
    and dec: "Unmarshal_HostResponse env body = Inr d"
  shows "\<exists>ms. getNodeMetrics env e w =
             (None, w\<lparr>sent := sent w @ [api_request e (node_url e)], ch := ch w @ ms\<rparr>)
           \<and> length ms = 12
           \<and> map (\<lambda>m. (fqName (desc m), val m)) ms =
               [(''pbs_host_cpu_usage'', Float64 (CPU d)),
                (''pbs_host_memory_free'', Float64_of_int64 (Mem_Free d)),
                (''pbs_host_memory_total'', Float64_of_int64 (Mem_Total d)),
                (''pbs_host_memory_used'', Float64_of_int64 (Mem_Used d)),
                (''pbs_host_swap_free'', Float64_of_int64 (Swap_Free d)),
                (''pbs_host_swap_total'', Float64_of_int64 (Swap_Total d)),
                (''pbs_host_swap_used'', Float64_of_int64 (Swap_Used d)),
                (''pbs_host_available_free'', Float64_of_int64 (Disk_Avail d)),
                (''pbs_host_disk_total'', Float64_of_int64 (Disk_Total d)),
                (''pbs_host_disk_used'', Float64_of_int64 (Disk_Used d)),
                (''pbs_host_uptime'', Float64_of_int64 (Uptime d)),
                (''pbs_host_io_wait'', Float64 (Wait d))]
           \<and> (\<forall>m\<in>set ms. valType m = GaugeValue \<and> labelValues m = [] \<and> variableLabels (desc m) = [])"
proof -
  have run: "getNodeMetrics env e w =
      (None, w\<lparr>sent := sent w @ [api_request e (node_url e)], ch := ch w @ host_metrics d\<rparr>)"
    using apiGet_ok [OF ans ok, of "''ERROR: ''"] dec by (simp add: getNodeMetrics_eq)
  have len: "length (host_metrics d) = 12"
    by (simp add: host_metrics_def)
  have names: "map (\<lambda>m. (fqName (desc m), val m)) (host_metrics d) =
               [(''pbs_host_cpu_usage'', Float64 (CPU d)),
                (''pbs_host_memory_free'', Float64_of_int64 (Mem_Free d)),
                (''pbs_host_memory_total'', Float64_of_int64 (Mem_Total d)),
                (''pbs_host_memory_used'', Float64_of_int64 (Mem_Used d)),
                (''pbs_host_swap_free'', Float64_of_int64 (Swap_Free d)),
                (''pbs_host_swap_total'', Float64_of_int64 (Swap_Total d)),
                (''pbs_host_swap_used'', Float64_of_int64 (Swap_Used d)),
                (''pbs_host_available_free'', Float64_of_int64 (Disk_Avail d)),
                (''pbs_host_disk_total'', Float64_of_int64 (Disk_Total d)),
                (''pbs_host_disk_used'', Float64_of_int64 (Disk_Used d)),
                (''pbs_host_uptime'', Float64_of_int64 (Uptime d)),
                (''pbs_host_io_wait'', Float64 (Wait d))]"
    by (simp add: host_metrics_def desc_MustNewConstMetric fqName_simps) (simp add: MustNewConstMetric_def)
  have gauges: "\<forall>m\<in>set (host_metrics d). valType m = GaugeValue \<and> labelValues m = [] \<and> variableLabels (desc m) = []"
    by (simp add: host_metrics_def MustNewConstMetric_def desc_defs NewDesc_def)
  show ?thesis
    by (intro exI[of _ "host_metrics d"] conjI) (fact run, fact len, fact names, fact gauges)
qed

theorem host_collector_samples_witness:
  "\<exists>ms. getNodeMetrics (ex_env healthy) ex_exporter idle =
           (None, \<lparr>sent = [api_request ex_exporter ''h/api2/json/nodes/localhost/status''], ch = ms, logged = []\<rparr>)
        \<and> length ms = 12
        \<and> map (\<lambda>m. (fqName (desc m), val m)) ms =
               [(''pbs_host_cpu_usage'', Float64 (1 / 4)),
                (''pbs_host_memory_free'', Float64_of_int64 1),
                (''pbs_host_memory_total'', Float64_of_int64 2),
                (''pbs_host_memory_used'', Float64_of_int64 3),
                (''pbs_host_swap_free'', Float64_of_int64 4),
                (''pbs_host_swap_total'', Float64_of_int64 5),
                (''pbs_host_swap_used'', Float64_of_int64 6),
                (''pbs_host_available_free'', Float64_of_int64 7),
                (''pbs_host_disk_total'', Float64_of_int64 8),
                (''pbs_host_disk_used'', Float64_of_int64 9),
                (''pbs_host_uptime'', Float64_of_int64 10),
                (''pbs_host_io_wait'', Float64 (1 / 8))]"
proof -
  have ans: "answers (ex_env healthy) ex_exporter idle (node_url ex_exporter) (ok200 ''H'')"
    by (rule ex_answers) (simp add: healthy_def ex_urls)
  have ok: "StatusCode (ok200 ''H'') = 200" "Body (ok200 ''H'') = Inr ''H''"
    by (simp_all add: ok200_def)
  have dec: "Unmarshal_HostResponse (ex_env healthy) ''H'' = Inr ex_host"
    by (simp add: ex_env_simps)
  from host_collector_samples [OF ans ok dec] obtain ms where
    "getNodeMetrics (ex_env healthy) ex_exporter idle =
       (None, idle\<lparr>sent := sent idle @ [api_request ex_exporter (node_url ex_exporter)], ch := ch idle @ ms\<rparr>)"
    "length ms = 12"
    "map (\<lambda>m. (fqName (desc m), val m)) ms =
               [(''pbs_host_cpu_usage'', Float64 (CPU ex_host)),
                (''pbs_host_memory_free'', Float64_of_int64 (Mem_Free ex_host)),
                (''pbs_host_memory_total'', Float64_of_int64 (Mem_Total ex_host)),
                (''pbs_host_memory_used'', Float64_of_int64 (Mem_Used ex_host)),
                (''pbs_host_swap_free'', Float64_of_int64 (Swap_Free ex_host)),
                (''pbs_host_swap_total'', Float64_of_int64 (Swap_Total ex_host)),
                (''pbs_host_swap_used'', Float64_of_int64 (Swap_Used ex_host)),
                (''pbs_host_available_free'', Float64_of_int64 (Disk_Avail ex_host)),
                (''pbs_host_disk_total'', Float64_of_int64 (Disk_Total ex_host)),
                (''pbs_host_disk_used'', Float64_of_int64 (Disk_Used ex_host)),
                (''pbs_host_uptime'', Float64_of_int64 (Uptime ex_host)),
                (''pbs_host_io_wait'', Float64 (Wait ex_host))]"
    by (elim exE conjE) (rule that; assumption)
  then show ?thesis
    by (intro exI[of _ ms]) (simp add: idle_def ex_urls ex_host_def)
qed

section \<open>The Authorization header\<close>

text \<open>
  Claim C6. The exporter is made with the header value
  \<open>PBSAPIToken=<username>!<token name>:<token>\<close>, and every request a scrape sends is a
  \<^verbatim>\<open>GET\<close> whose only header is \<^verbatim>\<open>Authorization\<close> with the value held by the
  exporter.
\<close>

theorem requests_carry_authorization:
  "authorizationHeader (NewExporter ep user tok tokname) = ''PBSAPIToken='' @ user @ ''!'' @ tokname @ '':'' @ tok
   \<and> (\<exists>rs. sent (Collect env e w) = sent w @ rs
          \<and> (\<forall>r\<in>set rs. Method r = ''GET'' \<and> Header r = [(''Authorization'', authorizationHeader e)]))"
proof -
  obtain r w' where run: "collectFromAPI env e w = (r, w')"
    by (cases "collectFromAPI env e w") blast
  from collectFromAPI_shape [OF run] obtain dss nss rs ms where
    w': "w' = w\<lparr>sent := sent w @ rs, ch := ch w @ ms\<rparr>"
    and rs: "prefix rs (scrape_calls e dss nss)"
    by blast
  have sent: "sent (Collect env e w) = sent w @ rs"
    using run w' by (simp add: Collect_eq split: option.splits)
  have "Method q = ''GET'' \<and> Header q = [(''Authorization'', authorizationHeader e)]" if "q \<in> set rs" for q
  proof -
    from that rs have "q \<in> set (scrape_calls e dss nss)"
      using set_mono_prefix by blast
    then obtain url where "q = api_request e url"
      using scrape_calls_requests by blast
    then show ?thesis by (simp add: api_request_def)
  qed
  with sent show ?thesis
    by (simp add: NewExporter_def)
qed

theorem requests_carry_authorization_witness:
  "map Header (sent (Collect (ex_env healthy) ex_exporter idle)) =
     replicate 4 [(''Authorization'', ''PBSAPIToken=root@pam!pbs-exporter:secret'')]"
proof -
  from requests_carry_authorization [of _ _ _ _ "ex_env healthy" ex_exporter idle]
  obtain rs where "sent (Collect (ex_env healthy) ex_exporter idle) = sent idle @ rs"
    "\<forall>r\<in>set rs. Header r = [(''Authorization'', authorizationHeader ex_exporter)]"
    by blast
  then have "\<forall>r\<in>set (sent (Collect (ex_env healthy) ex_exporter idle)).
      Header r = [(''Authorization'', authorizationHeader ex_exporter)]"
    by (simp add: idle_def)
  from map_const_replicate [OF this]
  have "map Header (sent (Collect (ex_env healthy) ex_exporter idle)) =
      replicate (length (sent (Collect (ex_env healthy) ex_exporter idle)))
        [(''Authorization'', authorizationHeader ex_exporter)]" .
  moreover have "length (sent (Collect (ex_env healthy) ex_exporter idle)) = 4"
    by (simp add: Collect_eq healthy_run scrape_calls_def datastore_calls_def)
  moreover have "authorizationHeader ex_exporter = ''PBSAPIToken=root@pam!pbs-exporter:secret''"
    by (simp add: ex_exporter_def NewExporter_def)
  ultimately show ?thesis by simp
qed

section \<open>Responses other than 200\<close>

text \<open>
  Claim C7, as the code has it. Let the server answer a call with a response whose status code is not 200.
  Then the collector that made the call returns an error at once: it has sent this one
  request and no other, and after the request it writes no sample. The error is the
  status error with the code when the body of the response could be read, and the read
  error otherwise (the body is read before the status is looked at). When the call is the usage listing, the scrape ends with that single request
  and the single sample \<open>up = 0\<close>: no namespace or snapshot call is made.
\<close>

theorem non200_ends_call:
  assumes ans: "answers env e w url resp" and non200: "StatusCode resp \<noteq> 200"
  shows "(url = usage_url e \<longrightarrow>
            collectFromAPI env e w =
              (Some (non200_error e ''ERROR: '' resp), w\<lparr>sent := sent w @ [api_request e url]\<rparr>)
            \<and> Collect env e w =
                w\<lparr>sent := sent w @ [api_request e url], ch := ch w @ [up_metric 0],
                  logged := logged w @ [non200_error e ''ERROR: '' resp]\<rparr>)
       \<and> (url = node_url e \<longrightarrow>
            getNodeMetrics env e w =
              (Some (non200_error e ''ERROR: '' resp), w\<lparr>sent := sent w @ [api_request e url]\<rparr>))
       \<and> (\<forall>d. url = namespace_url e (Store d) \<longrightarrow>
            getDatastoreMetric env e d w =
              (Some (non200_error e ''ERROR: --'' resp),
               w\<lparr>sent := sent w @ [api_request e url], ch := ch w @ datastore_metrics d\<rparr>))
       \<and> (\<forall>store n. url = snapshots_url e store n \<longrightarrow>
            getNamespaceMetric env e store n w =
              (Some (non200_error e ''ERROR: ----'' resp), w\<lparr>sent := sent w @ [api_request e url]\<rparr>))
       \<and> (\<forall>pfx body. Body resp = Inr body \<longrightarrow>
            non200_error e pfx resp = StatusError pfx (StatusCode resp) (endpoint e))
       \<and> (\<forall>pfx msg. Body resp = Inl msg \<longrightarrow> non200_error e pfx resp = ReadAllError msg)"
proof -
  have url_ok: "NewRequest_error env url = None"
    using ans by (simp add: answers_def)
  have usage: "collectFromAPI env e w =
      (Some (non200_error e ''ERROR: '' resp), w\<lparr>sent := sent w @ [api_request e url]\<rparr>)"
    if "url = usage_url e"
    using apiGet_non200 [OF ans non200, of "''ERROR: ''"] url_ok that by (simp add: collectFromAPI_eq)
  have scrape: "Collect env e w =
      w\<lparr>sent := sent w @ [api_request e url], ch := ch w @ [up_metric 0],
        logged := logged w @ [non200_error e ''ERROR: '' resp]\<rparr>"
    if "url = usage_url e"
    using usage [OF that] by (simp add: Collect_eq)
  have node: "getNodeMetrics env e w =
      (Some (non200_error e ''ERROR: '' resp), w\<lparr>sent := sent w @ [api_request e url]\<rparr>)"
    if "url = node_url e"
    using apiGet_non200 [OF ans non200, of "''ERROR: ''"] url_ok that by (simp add: getNodeMetrics_eq)
  have datastore: "getDatastoreMetric env e d w =
      (Some (non200_error e ''ERROR: --'' resp),
       w\<lparr>sent := sent w @ [api_request e url], ch := ch w @ datastore_metrics d\<rparr>)"
    if "url = namespace_url e (Store d)" for d
    using apiGet_non200 [OF ans non200, of "''ERROR: --''"] url_ok that by (simp add: getDatastoreMetric_eq)
  have namespace: "getNamespaceMetric env e store n w =
      (Some (non200_error e ''ERROR: ----'' resp), w\<lparr>sent := sent w @ [api_request e url]\<rparr>)"
    if "url = snapshots_url e store n" for store n
    using apiGet_non200 [OF ans non200, of "''ERROR: ----''"] url_ok that by (simp add: getNamespaceMetric_eq)
  have status: "non200_error e pfx resp = StatusError pfx (StatusCode resp) (endpoint e)"
    if "Body resp = Inr body" for pfx body
    using that by (simp add: non200_error_def)
  have unread: "non200_error e pfx resp = ReadAllError msg"
    if "Body resp = Inl msg" for pfx msg
    using that by (simp add: non200_error_def)
  from usage scrape node datastore namespace status unread show ?thesis by blast
qed

theorem non200_ends_call_witness:
  "answers (ex_env usage_listing_fails) ex_exporter idle (usage_url ex_exporter) status500
   \<and> StatusCode status500 = 500
   \<and> Collect (ex_env usage_listing_fails) ex_exporter idle =
       \<lparr>sent = [api_request ex_exporter ''h/api2/json/status/datastore-usage''],
        ch = [up_metric 0],
        logged = [StatusError ''ERROR: '' 500 ''h'']\<rparr>"
proof -
  have ans: "answers (ex_env usage_listing_fails) ex_exporter idle (usage_url ex_exporter) status500"
    by (rule ex_answers) (simp add: usage_listing_fails_def ex_urls)
  have non200: "StatusCode status500 \<noteq> 200" "StatusCode status500 = 500"
    by (simp_all add: status500_def)
  from non200_ends_call [OF ans non200(1)]
  have "Collect (ex_env usage_listing_fails) ex_exporter idle =
      idle\<lparr>sent := sent idle @ [api_request ex_exporter (usage_url ex_exporter)], ch := ch idle @ [up_metric 0],
           logged := logged idle @ [non200_error ex_exporter ''ERROR: '' status500]\<rparr>"
    by blast
  then have "Collect (ex_env usage_listing_fails) ex_exporter idle =
       \<lparr>sent = [api_request ex_exporter ''h/api2/json/status/datastore-usage''],
        ch = [up_metric 0],
        logged = [StatusError ''ERROR: '' 500 ''h'']\<rparr>"
    by (simp add: idle_def ex_urls non200_error_def status500_def)
  with ans non200 show ?thesis by blast
qed

text \<open>
  A response other than 200 does not always give a status error. On the example server
  whose usage listing answers 500 with a body that cannot be read, the scrape ends with
  the read error.
\<close>

theorem unreadable_500_gives_read_error:
  "answers (ex_env usage_listing_unreadable) ex_exporter idle (usage_url ex_exporter) unreadable500
   \<and> StatusCode unreadable500 = 500
   \<and> collectFromAPI (ex_env usage_listing_unreadable) ex_exporter idle =
       (Some (ReadAllError ''unexpected EOF''),
        \<lparr>sent = [api_request ex_exporter ''h/api2/json/status/datastore-usage''], ch = [], logged = []\<rparr>)
   \<and> logged (scrape (ex_env usage_listing_unreadable) ex_exporter) = [ReadAllError ''unexpected EOF'']"
proof -
  have "answers (ex_env usage_listing_unreadable) ex_exporter idle (usage_url ex_exporter) unreadable500"
    by (rule ex_answers) (simp add: usage_listing_unreadable_def ex_urls)
  moreover have "StatusCode unreadable500 = 500"
    by (simp add: unreadable500_def)
  moreover have run: "collectFromAPI (ex_env usage_listing_unreadable) ex_exporter idle =
       (Some (ReadAllError ''unexpected EOF''),
        \<lparr>sent = [api_request ex_exporter ''h/api2/json/status/datastore-usage''], ch = [], logged = []\<rparr>)"
    by (simp add: collectFromAPI_eq ex_fst_apiGet ex_env_simps ex_urls usage_listing_unreadable_def
        unreadable500_def idle_def)
  moreover have "logged (scrape (ex_env usage_listing_unreadable) ex_exporter) = [ReadAllError ''unexpected EOF'']"
    by (simp add: scrape_def Collect_eq run)
  ultimately show ?thesis by (intro conjI)
qed

end
